theory Spec2Isabelle
  imports Complex_Main "HOL-Library.Word"
begin


section \<open>Python values, exceptions and sequencing\<close>

text \<open>
  The embedding follows \<^verbatim>\<open>multimodal_perceiver/train.py\<close>. Python integers are \<open>int\<close>,
  the 64-bit integers of numpy and torch are 64-bit words, Python floats (losses, F1 scores
  and their means) are idealised as \<open>real\<close>, and every exception the code can raise is a
  value \<open>Inl e\<close> of a result type \<open>error + 'a\<close>.
\<close>

datatype error =
  ValueError | IndexError | KeyError | ZeroDivisionError | OverflowError | RuntimeError

text \<open>Statement sequencing: the first exception aborts everything after it.\<close>

definition ebind :: "error + 'a \<Rightarrow> ('a \<Rightarrow> error + 'b) \<Rightarrow> error + 'b" where
  "ebind m f = (case m of Inl e \<Rightarrow> Inl e | Inr x \<Rightarrow> f x)"

text \<open>\<^verbatim>\<open>d[k]\<close> on a dict: a missing key raises KeyError.\<close>

definition getitem :: "('k \<rightharpoonup> 'v) \<Rightarrow> 'k \<Rightarrow> error + 'v" where
  "getitem d k = (case d k of None \<Rightarrow> Inl KeyError | Some v \<Rightarrow> Inr v)"

text \<open>\<^verbatim>\<open>xs[i]\<close> on a sequence with a non-negative index: out of range raises IndexError.\<close>

definition seq_item :: "'a list \<Rightarrow> nat \<Rightarrow> error + 'a" where
  "seq_item xs i = (if i < length xs then Inr (xs ! i) else Inl IndexError)"

text \<open>\<^verbatim>\<open>xs[1:-1]\<close>: everything but the first and the last entry (empty for fewer than three).\<close>

definition slice_1_m1 :: "'a list \<Rightarrow> 'a list" where
  "slice_1_m1 xs = drop 1 (take (length xs - 1) xs)"

text \<open>\<^verbatim>\<open>a // b\<close> on Python integers: floor division, ZeroDivisionError for \<open>b = 0\<close>.\<close>

definition floordiv :: "int \<Rightarrow> int \<Rightarrow> error + int" where
  "floordiv a b = (if b = 0 then Inl ZeroDivisionError else Inr (a div b))"

text \<open>\<^verbatim>\<open>x / n\<close> with \<open>n = len(...)\<close>: true division, ZeroDivisionError for \<open>n = 0\<close>.\<close>

definition truediv :: "real \<Rightarrow> nat \<Rightarrow> error + real" where
  "truediv x n = (if n = 0 then Inl ZeroDivisionError else Inr (x / real n))"

subsection \<open>64-bit integers of numpy and torch\<close>

text \<open>
  The entries of a tensor's shape are 64-bit signed integers, read with \<^const>\<open>sint\<close>; a shape
  is a list of them. A Python integer fits when it lies in \<open>[-2^63, 2^63)\<close>.
\<close>

type_synonym int64 = "64 word"

definition fits_int64 :: "int \<Rightarrow> bool" where
  "fits_int64 k \<longleftrightarrow> - (2 ^ 63) \<le> k \<and> k < 2 ^ 63"

text \<open>
  A Python integer as the other operand of an int64 operation: numpy (version 2) converts it to
  int64, and raises OverflowError when it does not fit.
\<close>

definition to_int64 :: "int \<Rightarrow> error + int64" where
  "to_int64 k = (if fits_int64 k then Inr (word_of_int k) else Inl OverflowError)"

text \<open>
  A numpy scalar in this program is an int64, a float64 that holds a finite value (floats are
  idealised as reals), or a float64 that is infinite or not a number.
\<close>

datatype number = Int64 int64 | Float64 real | NotFinite

text \<open>
  \<^verbatim>\<open>np.prod(dims)\<close>: the int64 product of the entries, which wraps around modulo \<open>2^64\<close>
  without raising (multiplication of 64-bit words). For no entries numpy returns the float 1.0.
\<close>

definition np_prod :: "int64 list \<Rightarrow> number" where
  "np_prod dims = (case dims of [] \<Rightarrow> Float64 1 | d # ds \<Rightarrow> Int64 (prod_list dims))"

text \<open>
  \<^verbatim>\<open>x // n\<close> for a numpy scalar \<open>x\<close> and a Python integer \<open>n\<close>: floor division. Division by
  zero does not raise (it warns): the int64 result is 0, the float result is infinite.
\<close>

fun np_floordiv :: "number \<Rightarrow> int \<Rightarrow> error + number" where
  "np_floordiv (Int64 a) n =
     ebind (to_int64 n) (\<lambda>n'.
     Inr (Int64 (if n' = 0 then 0 else word_of_int (sint a div sint n'))))"
| "np_floordiv (Float64 x) n =
     Inr (if n = 0 then NotFinite else Float64 (of_int \<lfloor>x / of_int n\<rfloor>))"
| "np_floordiv NotFinite n = Inr NotFinite"

text \<open>
  \<^verbatim>\<open>x * k\<close> for a numpy scalar \<open>x\<close> and a Python integer \<open>k\<close>: the int64 product wraps
  around (with a warning) without raising.
\<close>

fun np_mul :: "number \<Rightarrow> int \<Rightarrow> error + number" where
  "np_mul (Int64 a) k = ebind (to_int64 k) (\<lambda>k'. Inr (Int64 (a * k')))"
| "np_mul (Float64 x) k = Inr (Float64 (x * of_int k))"
| "np_mul NotFinite k = Inr NotFinite"

text \<open>
  \<^verbatim>\<open>torch.arange(start, end)\<close> on Python integers: the values \<open>start, start + 1, ..., end - 1\<close>.
  It raises RuntimeError when a bound does not fit int64, when the upper bound is below the
  lower bound, and when the number of values does not fit int64. Memory is not modelled: a
  range is returned whatever its length.
\<close>

definition arange :: "int \<Rightarrow> int \<Rightarrow> error + int list" where
  "arange start end =
     (if \<not> fits_int64 start \<or> \<not> fits_int64 end then Inl RuntimeError
      else if end < start then Inl RuntimeError
      else if \<not> fits_int64 (end - start) then Inl RuntimeError
      else Inr [start..end - 1])"

text \<open>
  \<^verbatim>\<open>torch.arange(start, end)\<close> on numpy scalars: int64 bounds are read as integers. Float
  bounds give the values \<open>start, start + 1, ...\<close> below \<open>end\<close>, which are whole numbers in
  this program (the bounds are multiples of a floor quotient) and are kept as integers.
\<close>

fun torch_arange :: "number \<Rightarrow> number \<Rightarrow> error + int list" where
  "torch_arange (Int64 a) (Int64 b) = arange (sint a) (sint b)"
| "torch_arange (Float64 x) (Float64 y) =
     (if x \<le> y then Inr [\<lceil>x\<rceil>..\<lceil>y\<rceil> - 1] else Inl RuntimeError)"
| "torch_arange a b = Inl RuntimeError"

subsection \<open>The random source\<close>

text \<open>
  \<^verbatim>\<open>random.randint(a, b)\<close> is \<^verbatim>\<open>randrange(a, b + 1)\<close>, which raises ValueError on an empty
  range and otherwise returns \<^verbatim>\<open>start + _randbelow(width)\<close>. The random source is a raw
  natural number \<open>r\<close> per draw; \<^verbatim>\<open>_randbelow(width)\<close> maps it into \<open>[0, width)\<close>.
\<close>

definition randrange :: "int \<Rightarrow> int \<Rightarrow> nat \<Rightarrow> error + int" where
  "randrange start stop r =
     (let width = stop - start
      in if width > 0 then Inr (start + int r mod width) else Inl ValueError)"

definition randint :: "int \<Rightarrow> int \<Rightarrow> nat \<Rightarrow> error + int" where
  "randint a b r = randrange a (b + 1) r"

section \<open>Subsampling generator\<close>

text \<open>
  A subsampling spec is the dict built at lines 16-22: modality name to an index tensor,
  or to Python's \<^verbatim>\<open>None\<close> for no subsampling.
\<close>

type_synonym subsampling = "string \<rightharpoonup> int list option"

definition generate_subsampling ::
  "int \<Rightarrow> int \<Rightarrow> int64 list \<Rightarrow> int64 list \<Rightarrow> nat \<Rightarrow> error + subsampling" where
  "generate_subsampling nchunks samples_per_patch im_shape au_shape r =
     ebind (randint 0 nchunks r) (\<lambda>chunk_idx.
     ebind (np_floordiv (np_prod (slice_1_m1 im_shape)) nchunks) (\<lambda>image_chunk_size.
     ebind (seq_item au_shape 1) (\<lambda>au_len.
     ebind (floordiv (sint au_len) samples_per_patch) (\<lambda>au_patches.
     ebind (floordiv au_patches nchunks) (\<lambda>audio_chunk_size.
     ebind (np_mul image_chunk_size chunk_idx) (\<lambda>image_start.
     ebind (np_mul image_chunk_size (chunk_idx + 1)) (\<lambda>image_end.
     ebind (torch_arange image_start image_end) (\<lambda>image.
     ebind (arange (audio_chunk_size * chunk_idx) (audio_chunk_size * (chunk_idx + 1))) (\<lambda>audio.
     Inr [''image'' \<mapsto> Some image, ''audio'' \<mapsto> Some audio, ''label'' \<mapsto> None])))))))))"

text \<open>
  The values of the local variables \<open>image_chunk_size\<close> (line 14, as an integer) and
  \<open>audio_chunk_size\<close> (line 15) where the lines do not raise.
\<close>

fun number_value :: "number \<Rightarrow> int" where
  "number_value (Int64 a) = sint a"
| "number_value (Float64 x) = \<lfloor>x\<rfloor>"
| "number_value NotFinite = 0"

definition image_chunk_size :: "int \<Rightarrow> int64 list \<Rightarrow> int" where
  "image_chunk_size nchunks im_shape =
     (case np_floordiv (np_prod (slice_1_m1 im_shape)) nchunks of
        Inr v \<Rightarrow> number_value v | Inl e \<Rightarrow> 0)"

definition audio_chunk_size :: "int \<Rightarrow> int \<Rightarrow> int64 list \<Rightarrow> int" where
  "audio_chunk_size nchunks samples_per_patch au_shape =
     sint (au_shape ! 1) div samples_per_patch div nchunks"

text \<open>The index set a subsampling spec selects for a modality (empty when it selects none).\<close>

definition points :: "subsampling \<Rightarrow> string \<Rightarrow> int set" where
  "points s k = (case s k of Some (Some xs) \<Rightarrow> set xs | _ \<Rightarrow> {})"

section \<open>The training loop and its externals\<close>

text \<open>
  A batch is the dict the data loader yields: modality name to tensor. Tensors are values of
  a type \<open>'t\<close> of the tensor library; a data loader is the list of its batches, and
  \<^verbatim>\<open>len(dataloader)\<close> is the length of that list.
\<close>

type_synonym 't batch = "string \<rightharpoonup> 't"

text \<open>
  Calls that act on the model, the optimizer, the autograd mode or the metrics sink are
  recorded in call order. A forward call records the model's mode (training or evaluation)
  and whether inference mode (no gradient tracking) is on.
\<close>

datatype event =
    Model_to_device
  | Model_train
  | Model_eval
  | Inference_enter
  | Inference_exit
  | Forward bool bool
  | Zero_grad
  | Backward
  | Optimizer_step
  | Wandb_log "(string \<times> real) list"

text \<open>
  Everything the functions of \<^verbatim>\<open>train.py\<close> read and mutate outside their local variables:
  the model's parameters and mode flag, the optimizer's state, the autograd mode, the random
  source (a tape of raw values and the number of draws made so far) and the calls made so far.
\<close>

record ('p, 'o) world =
  params :: 'p
  optim :: 'o
  training :: bool
  inference :: bool
  tape :: "nat \<Rightarrow> nat"
  drawn :: nat
  trace :: "event list"

text \<open>
  What the caller and the libraries supply (the file defines none of it): the tensor library's
  \<^verbatim>\<open>shape\<close>, \<^verbatim>\<open>softmax(., dim=1)\<close> and \<^verbatim>\<open>argmax(dim=1)\<close>, the model's forward pass (a function
  of the parameters and the mode), the loss (with \<^verbatim>\<open>.item()\<close>), the optimizer's
  \<^verbatim>\<open>zero_grad\<close> and \<^verbatim>\<open>step\<close>, \<^verbatim>\<open>loss.backward()\<close>, and \<^verbatim>\<open>f1_score(., ., average='weighted')\<close>.
  Those that can raise return a result.
\<close>

record ('p, 'o, 't) ext =
  shape :: "'t \<Rightarrow> int64 list"
  forward :: "'p \<Rightarrow> bool \<Rightarrow> 't batch \<Rightarrow> subsampling \<Rightarrow> error + (string \<rightharpoonup> (string \<rightharpoonup> 't))"
  loss_fn :: "'t \<Rightarrow> 't \<Rightarrow> error + real"
  zero_grad :: "'p \<times> 'o \<Rightarrow> 'p \<times> 'o"
  backward :: "'p \<times> 'o \<Rightarrow> bool \<Rightarrow> 't batch \<Rightarrow> subsampling \<Rightarrow> error + 'p \<times> 'o"
  step :: "'p \<times> 'o \<Rightarrow> 'p \<times> 'o"
  softmax :: "'t \<Rightarrow> 't"
  argmax :: "'t \<Rightarrow> error + int list"
  f1_score :: "int list \<Rightarrow> int list \<Rightarrow> error + real"

definition emit :: "event \<Rightarrow> ('p, 'o) world \<Rightarrow> ('p, 'o) world" where
  "emit e w = w\<lparr>trace := trace w @ [e]\<rparr>"

text \<open>The next raw value of the random source.\<close>

definition draw :: "('p, 'o) world \<Rightarrow> nat \<times> ('p, 'o) world" where
  "draw w = (tape w (drawn w), w\<lparr>drawn := Suc (drawn w)\<rparr>)"

text \<open>A \<^verbatim>\<open>for\<close> loop over a list, threading the loop's variables; an exception ends it.\<close>

fun for_each :: "('s \<Rightarrow> 'a \<Rightarrow> error + 's) \<Rightarrow> 'a list \<Rightarrow> 's \<Rightarrow> error + 's" where
  "for_each body [] s = Inr s"
| "for_each body (x # xs) s = ebind (body s x) (for_each body xs)"

subsection \<open>Train step (lines 26-57)\<close>

text \<open>
  The loop body, lines 37-53, on the loop's variables \<open>(train_loss, train_fscore)\<close> and the
  world. Moving a batch to the device does not change its contents.
\<close>

definition train_body ::
  "('p, 'o, 't) ext \<Rightarrow> real \<times> real \<times> ('p, 'o) world \<Rightarrow> 't batch \<Rightarrow>
     error + real \<times> real \<times> ('p, 'o) world" where
  "train_body ext acc batch =
     (case acc of (train_loss, train_fscore, w) \<Rightarrow>
      ebind (getitem batch ''image'') (\<lambda>image.
      ebind (getitem batch ''audio'') (\<lambda>audio.
      case draw w of (r, w) \<Rightarrow>
      ebind (generate_subsampling 32 16 (shape ext image) (shape ext audio) r) (\<lambda>subsample.
      ebind (forward ext (params w) (training w) batch subsample) (\<lambda>y_pred.
      let w = emit (Forward (training w) (inference w)) w in
      ebind (getitem y_pred ''logits'') (\<lambda>logits.
      ebind (getitem logits ''label'') (\<lambda>y_pred.
      ebind (getitem batch ''label'') (\<lambda>y.
      ebind (loss_fn ext y_pred y) (\<lambda>loss.
      let train_loss = train_loss + loss;
          (ps, os) = zero_grad ext (params w, optim w);
          w = emit Zero_grad (w\<lparr>params := ps, optim := os\<rparr>) in
      ebind (backward ext (params w, optim w) (training w) batch subsample) (\<lambda>(ps, os).
      let w = emit Backward (w\<lparr>params := ps, optim := os\<rparr>);
          (ps, os) = step ext (params w, optim w);
          w = emit Optimizer_step (w\<lparr>params := ps, optim := os\<rparr>) in
      ebind (argmax ext (softmax ext y_pred)) (\<lambda>y_pred_class.
      ebind (argmax ext y) (\<lambda>y_true.
      ebind (f1_score ext y_true y_pred_class) (\<lambda>f1.
      let train_fscore = train_fscore + f1;
          w = emit (Wandb_log [(''batch train loss'', loss)]) w in
      Inr (train_loss, train_fscore, w))))))))))))))"

definition train_step ::
  "('p, 'o, 't) ext \<Rightarrow> 't batch list \<Rightarrow> ('p, 'o) world \<Rightarrow> error + real \<times> real \<times> ('p, 'o) world" where
  "train_step ext dataloader w =
     (let w = emit Model_train (w\<lparr>training := True\<rparr>) in
      ebind (for_each (train_body ext) dataloader (0, 0, w)) (\<lambda>(train_loss, train_fscore, w).
      ebind (truediv train_loss (length dataloader)) (\<lambda>avg_train_loss.
      ebind (truediv train_fscore (length dataloader)) (\<lambda>avg_train_f1.
      Inr (avg_train_loss, avg_train_f1, w)))))"

subsection \<open>Validation step (lines 60-87)\<close>

definition val_body ::
  "('p, 'o, 't) ext \<Rightarrow> real \<times> real \<times> ('p, 'o) world \<Rightarrow> 't batch \<Rightarrow>
     error + real \<times> real \<times> ('p, 'o) world" where
  "val_body ext acc batch =
     (case acc of (val_loss, val_fscore, w) \<Rightarrow>
      ebind (getitem batch ''image'') (\<lambda>image.
      ebind (getitem batch ''audio'') (\<lambda>audio.
      case draw w of (r, w) \<Rightarrow>
      ebind (generate_subsampling 32 16 (shape ext image) (shape ext audio) r) (\<lambda>subsample.
      ebind (forward ext (params w) (training w) batch subsample) (\<lambda>y_pred.
      let w = emit (Forward (training w) (inference w)) w in
      ebind (getitem y_pred ''logits'') (\<lambda>logits.
      ebind (getitem logits ''label'') (\<lambda>y_pred.
      ebind (getitem batch ''label'') (\<lambda>y.
      ebind (loss_fn ext y_pred y) (\<lambda>loss.
      let val_loss = val_loss + loss in
      ebind (argmax ext (softmax ext y_pred)) (\<lambda>y_pred_class.
      ebind (argmax ext y) (\<lambda>y_true.
      ebind (f1_score ext y_true y_pred_class) (\<lambda>f1.
      let val_fscore = val_fscore + f1 in
      Inr (val_loss, val_fscore, w)))))))))))))"

text \<open>
  The \<^verbatim>\<open>with torch.inference_mode()\<close> block switches inference mode on and restores the
  previous mode when it is left. The optimizer argument is never used.
\<close>

definition val_step ::
  "('p, 'o, 't) ext \<Rightarrow> 't batch list \<Rightarrow> ('p, 'o) world \<Rightarrow> error + real \<times> real \<times> ('p, 'o) world" where
  "val_step ext dataloader w =
     (let w = emit Model_eval (w\<lparr>training := False\<rparr>);
          before = inference w;
          w = emit Inference_enter (w\<lparr>inference := True\<rparr>) in
      ebind (for_each (val_body ext) dataloader (0, 0, w)) (\<lambda>(val_loss, val_fscore, w).
      let w = emit Inference_exit (w\<lparr>inference := before\<rparr>) in
      ebind (truediv val_loss (length dataloader)) (\<lambda>avg_val_loss.
      ebind (truediv val_fscore (length dataloader)) (\<lambda>avg_val_f1.
      Inr (avg_val_loss, avg_val_f1, w)))))"

subsection \<open>Test evaluation (lines 90-126)\<close>

definition test_step_body ::
  "('p, 'o, 't) ext \<Rightarrow> int list \<times> int list \<times> ('p, 'o) world \<Rightarrow> 't batch \<Rightarrow>
     error + int list \<times> int list \<times> ('p, 'o) world" where
  "test_step_body ext acc batch =
     (case acc of (gold, pred, w) \<Rightarrow>
      ebind (getitem batch ''image'') (\<lambda>image.
      ebind (getitem batch ''audio'') (\<lambda>audio.
      case draw w of (r, w) \<Rightarrow>
      ebind (generate_subsampling 32 16 (shape ext image) (shape ext audio) r) (\<lambda>subsample.
      ebind (forward ext (params w) (training w) batch subsample) (\<lambda>test_pred_logits.
      let w = emit (Forward (training w) (inference w)) w in
      ebind (getitem test_pred_logits ''logits'') (\<lambda>logits.
      ebind (getitem logits ''label'') (\<lambda>test_pred_logits.
      ebind (argmax ext test_pred_logits) (\<lambda>test_pred_labels.
      let pred = pred @ test_pred_labels in
      ebind (getitem batch ''label'') (\<lambda>y.
      ebind (argmax ext y) (\<lambda>y_true.
      let gold = gold @ y_true in
      Inr (gold, pred, w)))))))))))"

definition test_step ::
  "('p, 'o, 't) ext \<Rightarrow> 't batch list \<Rightarrow> ('p, 'o) world \<Rightarrow> error + real \<times> ('p, 'o) world" where
  "test_step ext dataloader w =
     (let before = inference w;
          w = emit Inference_enter (w\<lparr>inference := True\<rparr>) in
      ebind (for_each (test_step_body ext) dataloader ([], [], w)) (\<lambda>(gold, pred, w).
      let w = emit Inference_exit (w\<lparr>inference := before\<rparr>) in
      ebind (f1_score ext gold pred) (\<lambda>test_acc.
      Inr (test_acc, w))))"

definition test_for_eval_body ::
  "('p, 'o, 't) ext \<Rightarrow> int list \<times> int list \<times> ('p, 'o) world \<Rightarrow> 't batch \<Rightarrow>
     error + int list \<times> int list \<times> ('p, 'o) world" where
  "test_for_eval_body ext acc batch =
     (case acc of (gold, pred, w) \<Rightarrow>
      ebind (getitem batch ''image'') (\<lambda>image.
      ebind (getitem batch ''audio'') (\<lambda>audio.
      case draw w of (r, w) \<Rightarrow>
      ebind (generate_subsampling 32 16 (shape ext image) (shape ext audio) r) (\<lambda>subsample.
      ebind (forward ext (params w) (training w) batch subsample) (\<lambda>test_pred_logits.
      let w = emit (Forward (training w) (inference w)) w in
      ebind (getitem test_pred_logits ''logits'') (\<lambda>logits.
      ebind (getitem logits ''label'') (\<lambda>test_pred_logits.
      ebind (argmax ext test_pred_logits) (\<lambda>test_pred_labels.
      let pred = pred @ test_pred_labels in
      ebind (getitem batch ''label'') (\<lambda>y.
      ebind (argmax ext y) (\<lambda>y_true.
      let gold = gold @ y_true in
      Inr (gold, pred, w)))))))))))"

definition test_for_eval ::
  "('p, 'o, 't) ext \<Rightarrow> 't batch list \<Rightarrow> ('p, 'o) world \<Rightarrow>
     error + (real \<times> int list \<times> int list) \<times> ('p, 'o) world" where
  "test_for_eval ext dataloader w =
     (let before = inference w;
          w = emit Inference_enter (w\<lparr>inference := True\<rparr>) in
      ebind (for_each (test_for_eval_body ext) dataloader ([], [], w)) (\<lambda>(gold, pred, w).
      let w = emit Inference_exit (w\<lparr>inference := before\<rparr>) in
      ebind (f1_score ext gold pred) (\<lambda>test_acc.
      Inr ((test_acc, gold, pred), w))))"

subsection \<open>Training orchestrator (lines 128-173)\<close>

text \<open>
  The local variables of \<^verbatim>\<open>train\<close>, with the world. The function returns \<^verbatim>\<open>None\<close> from two
  places: the early stop of line 162 and the end of the loop, line 173. The model returns
  which of the two it was, and the local variables at that point.
\<close>

record ('p, 'o) run_state =
  train_losses :: "real list"
  val_losses :: "real list"
  train_fscores :: "real list"
  val_fscores :: "real list"
  prev_val_score :: real
  no_improv_epochs :: int
  wld :: "('p, 'o) world"

datatype 'a flow = Next 'a | Return 'a

datatype status = STOPPED | COMPLETED

text \<open>\<^verbatim>\<open>range(n)\<close>: the integers \<open>0, ..., n - 1\<close>, none for \<open>n \<le> 0\<close>.\<close>

definition py_range :: "int \<Rightarrow> int list" where
  "py_range n = [0..n - 1]"

text \<open>The body of the epoch loop, lines 145-171.\<close>

definition train_epoch ::
  "('p, 'o, 't) ext \<Rightarrow> 't batch list \<Rightarrow> 't batch list \<Rightarrow> int \<Rightarrow>
     ('p, 'o) run_state \<Rightarrow> int \<Rightarrow> error + ('p, 'o) run_state flow" where
  "train_epoch ext train_dataloader val_dataloader patience st epoch =
     ebind (train_step ext train_dataloader (wld st)) (\<lambda>(avg_train_loss, avg_train_f1, w).
     ebind (val_step ext val_dataloader w) (\<lambda>(avg_val_loss, avg_val_f1, w).
     let st = st\<lparr>wld := w\<rparr>;
         st = (if avg_val_f1 < prev_val_score st
               then st\<lparr>no_improv_epochs := no_improv_epochs st + 1\<rparr> else st);
         st = st\<lparr>prev_val_score := avg_val_f1\<rparr>
     in if no_improv_epochs st \<ge> patience then Inr (Return st)
        else
          let st = st\<lparr>train_losses := train_losses st @ [avg_train_loss]\<rparr>;
              st = st\<lparr>train_fscores := train_fscores st @ [avg_train_f1]\<rparr>;
              st = st\<lparr>val_losses := val_losses st @ [avg_val_loss]\<rparr>;
              st = st\<lparr>val_fscores := val_fscores st @ [avg_val_f1]\<rparr>;
              st = st\<lparr>wld := emit (Wandb_log
                     [(''train loss'', avg_train_loss), (''val loss'', avg_val_loss),
                      (''train F1'', avg_train_f1), (''val F1'', avg_val_f1),
                      (''epoch'', real_of_int epoch)]) (wld st)\<rparr>
          in Inr (Next st)))"

fun epochs_loop ::
  "('s \<Rightarrow> int \<Rightarrow> error + 's flow) \<Rightarrow> int list \<Rightarrow> 's \<Rightarrow> error + status \<times> 's" where
  "epochs_loop body [] st = Inr (COMPLETED, st)"
| "epochs_loop body (epoch # rest) st =
     ebind (body st epoch) (\<lambda>fl.
       case fl of Return st' \<Rightarrow> Inr (STOPPED, st') | Next st' \<Rightarrow> epochs_loop body rest st')"

text \<open>The local variables after lines 137-142.\<close>

definition init_state :: "('p, 'o) world \<Rightarrow> ('p, 'o) run_state" where
  "init_state w =
     \<lparr>train_losses = [], val_losses = [], train_fscores = [], val_fscores = [],
      prev_val_score = 0, no_improv_epochs = 0, wld = emit Model_to_device w\<rparr>"

definition train ::
  "('p, 'o, 't) ext \<Rightarrow> 't batch list \<Rightarrow> 't batch list \<Rightarrow> int \<Rightarrow> int \<Rightarrow> ('p, 'o) world \<Rightarrow>
     error + status \<times> ('p, 'o) run_state" where
  "train ext train_dataloader val_dataloader epochs patience w =
     epochs_loop (train_epoch ext train_dataloader val_dataloader patience) (py_range epochs)
       (init_state w)"

section \<open>Notions the properties are stated with\<close>

text \<open>
  The values one batch contributes: what a pass of the loop body adds to accumulators that
  start empty, with the world the pass leaves. For the train and validation steps these are
  the batch's loss and F1 score, for the test evaluation its gold and predicted labels.
\<close>

definition train_batch ::
  "('p, 'o, 't) ext \<Rightarrow> ('p, 'o) world \<Rightarrow> 't batch \<Rightarrow> error + (real \<times> real) \<times> ('p, 'o) world" where
  "train_batch ext w batch =
     ebind (train_body ext (0, 0, w) batch) (\<lambda>(loss, f1, w'). Inr ((loss, f1), w'))"

definition val_batch ::
  "('p, 'o, 't) ext \<Rightarrow> ('p, 'o) world \<Rightarrow> 't batch \<Rightarrow> error + (real \<times> real) \<times> ('p, 'o) world" where
  "val_batch ext w batch =
     ebind (val_body ext (0, 0, w) batch) (\<lambda>(loss, f1, w'). Inr ((loss, f1), w'))"

definition test_batch ::
  "('p, 'o, 't) ext \<Rightarrow> ('p, 'o) world \<Rightarrow> 't batch \<Rightarrow>
     error + (int list \<times> int list) \<times> ('p, 'o) world" where
  "test_batch ext w batch =
     ebind (test_step_body ext ([], [], w) batch) (\<lambda>(gold, pred, w'). Inr ((gold, pred), w'))"

text \<open>The per-batch values of a whole pass over a data loader, in order.\<close>

fun run_batches :: "('w \<Rightarrow> 'a \<Rightarrow> error + 'v \<times> 'w) \<Rightarrow> 'a list \<Rightarrow> 'w \<Rightarrow> error + 'v list \<times> 'w" where
  "run_batches f [] w = Inr ([], w)"
| "run_batches f (x # xs) w =
     ebind (f w x) (\<lambda>(v, w'). ebind (run_batches f xs w') (\<lambda>(vs, w''). Inr (v # vs, w'')))"

text \<open>The arithmetic mean of a list of values.\<close>

definition mean :: "real list \<Rightarrow> real" where
  "mean xs = sum_list xs / real (length xs)"

text \<open>
  The number of entries of a sequence of validation scores that are strictly below their
  predecessor, the first one being compared with \<open>prev\<close>.
\<close>

fun descents :: "real \<Rightarrow> real list \<Rightarrow> int" where
  "descents prev [] = 0"
| "descents prev (v # vs) = (if v < prev then 1 else 0) + descents v vs"

text \<open>
  Reading the call trace: the per-epoch metric logs (those with an \<open>epoch\<close> key), the losses
  logged per batch, and the number of epochs begun (every train step starts with one
  \<^verbatim>\<open>model.train()\<close>).
\<close>

fun is_epoch_log :: "event \<Rightarrow> bool" where
  "is_epoch_log (Wandb_log kvs) = (''epoch'' \<in> set (map fst kvs))"
| "is_epoch_log e = False"

definition epoch_logs :: "event list \<Rightarrow> event list" where
  "epoch_logs tr = filter is_epoch_log tr"

fun batch_loss_of :: "event \<Rightarrow> real list" where
  "batch_loss_of (Wandb_log kvs) = map snd (filter (\<lambda>kv. fst kv = ''batch train loss'') kvs)"
| "batch_loss_of e = []"

definition batch_loss_logs :: "event list \<Rightarrow> real list" where
  "batch_loss_logs tr = concat (map batch_loss_of tr)"

definition epochs_begun :: "event list \<Rightarrow> nat" where
  "epochs_begun tr = count_list tr Model_train"

text \<open>The validation scores a run of \<^verbatim>\<open>train\<close> has seen: those it recorded and, after an
  early stop, the one of the stopping epoch, which is kept in \<open>prev_val_score\<close> only.\<close>

definition val_scores_seen :: "status \<Rightarrow> ('p, 'o) run_state \<Rightarrow> real list" where
  "val_scores_seen status st =
     val_fscores st @ (if status = STOPPED then [prev_val_score st] else [])"

text \<open>
  The loss and the weighted F1 score of one batch, for the model as the world has it and the
  next draw of the random source: lines 38-43 and 50-51 (the same as 73-79 and 82-83) without
  their effects.
\<close>

definition batch_scores ::
  "('p, 'o, 't) ext \<Rightarrow> ('p, 'o) world \<Rightarrow> 't batch \<Rightarrow> error + real \<times> real" where
  "batch_scores ext w batch =
     ebind (getitem batch ''image'') (\<lambda>image.
     ebind (getitem batch ''audio'') (\<lambda>audio.
     ebind (generate_subsampling 32 16 (shape ext image) (shape ext audio) (tape w (drawn w)))
       (\<lambda>subsample.
     ebind (forward ext (params w) (training w) batch subsample) (\<lambda>out.
     ebind (getitem out ''logits'') (\<lambda>logits.
     ebind (getitem logits ''label'') (\<lambda>y_pred.
     ebind (getitem batch ''label'') (\<lambda>y.
     ebind (loss_fn ext y_pred y) (\<lambda>loss.
     ebind (argmax ext (softmax ext y_pred)) (\<lambda>y_pred_class.
     ebind (argmax ext y) (\<lambda>y_true.
     ebind (f1_score ext y_true y_pred_class) (\<lambda>f1.
     Inr (loss, f1))))))))))))"

text \<open>
  The gold and the predicted labels of one batch, for the model as the world has it and the
  next draw of the random source: lines 97-104 (the same as 116-123) without their effects.
\<close>

definition batch_labels ::
  "('p, 'o, 't) ext \<Rightarrow> ('p, 'o) world \<Rightarrow> 't batch \<Rightarrow> error + int list \<times> int list" where
  "batch_labels ext w batch =
     ebind (getitem batch ''image'') (\<lambda>image.
     ebind (getitem batch ''audio'') (\<lambda>audio.
     ebind (generate_subsampling 32 16 (shape ext image) (shape ext audio) (tape w (drawn w)))
       (\<lambda>subsample.
     ebind (forward ext (params w) (training w) batch subsample) (\<lambda>out.
     ebind (getitem out ''logits'') (\<lambda>logits.
     ebind (getitem logits ''label'') (\<lambda>test_pred_logits.
     ebind (argmax ext test_pred_logits) (\<lambda>test_pred_labels.
     ebind (getitem batch ''label'') (\<lambda>y.
     ebind (argmax ext y) (\<lambda>y_true.
     Inr (y_true, test_pred_labels))))))))))"


text \<open>
  The image chunk size as the specification words it: the product, as a mathematical integer,
  of the image shape's entries without the first and the last, floor-divided by \<open>nchunks\<close>.
\<close>

definition spec_image_chunk_size :: "int \<Rightarrow> int64 list \<Rightarrow> int" where
  "spec_image_chunk_size nchunks im_shape =
     prod_list (map sint (slice_1_m1 im_shape)) div nchunks"

text \<open>
  The four metrics of one epoch, and what one epoch computes from the world it starts in: the
  train step, then the validation step on the world the train step leaves (lines 145-156).
\<close>

record metrics =
  m_train_loss :: real
  m_train_f1 :: real
  m_val_loss :: real
  m_val_f1 :: real

definition epoch_metrics ::
  "('p, 'o, 't) ext \<Rightarrow> 't batch list \<Rightarrow> 't batch list \<Rightarrow> ('p, 'o) world \<Rightarrow>
     error + metrics \<times> ('p, 'o) world" where
  "epoch_metrics ext train_dataloader val_dataloader w =
     ebind (train_step ext train_dataloader w) (\<lambda>(tloss, tf1, w1).
     ebind (val_step ext val_dataloader w1) (\<lambda>(vloss, vf1, w2).
     Inr (\<lparr>m_train_loss = tloss, m_train_f1 = tf1, m_val_loss = vloss, m_val_f1 = vf1\<rparr>, w2)))"

text \<open>The observation an epoch logs at lines 169-171.\<close>

definition epoch_log :: "metrics \<Rightarrow> int \<Rightarrow> event" where
  "epoch_log m epoch =
     Wandb_log [(''train loss'', m_train_loss m), (''val loss'', m_val_loss m),
       (''train F1'', m_train_f1 m), (''val F1'', m_val_f1 m), (''epoch'', real_of_int epoch)]"

text \<open>
  The metrics of a sequence of epochs none of which stops the run: each epoch computes its
  metrics and logs them, and the next epoch starts in the world that leaves.
\<close>

fun logged_epochs ::
  "('p, 'o, 't) ext \<Rightarrow> 't batch list \<Rightarrow> 't batch list \<Rightarrow> int list \<Rightarrow> ('p, 'o) world \<Rightarrow>
     error + metrics list \<times> ('p, 'o) world" where
  "logged_epochs ext tdl vdl [] w = Inr ([], w)"
| "logged_epochs ext tdl vdl (epoch # rest) w =
     ebind (epoch_metrics ext tdl vdl w) (\<lambda>(m, w1).
     ebind (logged_epochs ext tdl vdl rest (emit (epoch_log m epoch) w1)) (\<lambda>(ms, w2).
     Inr (m # ms, w2)))"

section \<open>A concrete instance of the externals\<close>

text \<open>
  The loops are run on this instance in the examples. A tensor is its shape and its
  values, one row per sample (left empty where nothing reads them).
\<close>

datatype tensor = Tensor "int64 list" "real list list"

fun tensor_shape :: "tensor \<Rightarrow> int64 list" where
  "tensor_shape (Tensor s rs) = s"

fun tensor_rows :: "tensor \<Rightarrow> real list list" where
  "tensor_rows (Tensor s rs) = rs"

text \<open>\<^verbatim>\<open>argmax\<close> along a row: the index of the first maximal value; an empty row raises.\<close>

fun argmax_from :: "nat \<Rightarrow> nat \<Rightarrow> real \<Rightarrow> real list \<Rightarrow> nat" where
  "argmax_from i best v [] = best"
| "argmax_from i best v (x # xs) =
     (if v < x then argmax_from (Suc i) i x xs else argmax_from (Suc i) best v xs)"

definition argmax_row :: "real list \<Rightarrow> error + int" where
  "argmax_row xs = (case xs of [] \<Rightarrow> Inl RuntimeError | x # ys \<Rightarrow> Inr (int (argmax_from 1 0 x ys)))"

fun map_result :: "('a \<Rightarrow> error + 'b) \<Rightarrow> 'a list \<Rightarrow> error + 'b list" where
  "map_result f [] = Inr []"
| "map_result f (x # xs) = ebind (f x) (\<lambda>y. ebind (map_result f xs) (\<lambda>ys. Inr (y # ys)))"

definition tensor_argmax :: "tensor \<Rightarrow> error + int list" where
  "tensor_argmax t = map_result argmax_row (tensor_rows t)"

definition softmax_row :: "real list \<Rightarrow> real list" where
  "softmax_row xs = map (\<lambda>x. exp x / sum_list (map exp xs)) xs"

definition tensor_softmax :: "tensor \<Rightarrow> tensor" where
  "tensor_softmax t = Tensor (tensor_shape t) (map softmax_row (tensor_rows t))"

text \<open>A mean squared error loss; tensors of different sizes raise.\<close>

definition mse_loss :: "tensor \<Rightarrow> tensor \<Rightarrow> error + real" where
  "mse_loss y_pred y =
     (let a = concat (tensor_rows y_pred); b = concat (tensor_rows y)
      in if length a \<noteq> length b \<or> a = [] then Inl RuntimeError
         else Inr (sum_list (map2 (\<lambda>u v. (u - v)\<^sup>2) a b) / real (length a)))"

text \<open>
  The weighted F1 score as scikit-learn documents it: the F1 of each class,
  \<open>2 tp / (2 tp + fp + fn)\<close> and 0 where that is undefined, averaged with the class supports
  as weights; lists of different lengths and empty lists raise ValueError.
\<close>

definition class_f1 :: "int list \<Rightarrow> int list \<Rightarrow> int \<Rightarrow> real" where
  "class_f1 y_true y_pred c =
     (let tp = length (filter (\<lambda>(t, p). t = c \<and> p = c) (zip y_true y_pred));
          support = count_list y_true c;
          predicted = count_list y_pred c
      in if support + predicted = 0 then 0 else 2 * real tp / real (support + predicted))"

definition weighted_f1 :: "int list \<Rightarrow> int list \<Rightarrow> error + real" where
  "weighted_f1 y_true y_pred =
     (if length y_true \<noteq> length y_pred then Inl ValueError
      else if y_true = [] then Inl ValueError
      else Inr (sum_list (map (\<lambda>c. real (count_list y_true c) * class_f1 y_true y_pred c)
                  (remdups (y_true @ y_pred))) / real (length y_true)))"

text \<open>
  A one-parameter model: the parameter is added to the last logit of every sample, and every
  optimizer step raises it by one, so training drives the predictions to the last class.
\<close>

definition add_bias :: "nat \<Rightarrow> real list \<Rightarrow> real list" where
  "add_bias p row = (case row of [] \<Rightarrow> [] | _ \<Rightarrow> butlast row @ [last row + real p])"

definition toy_forward ::
  "nat \<Rightarrow> bool \<Rightarrow> tensor batch \<Rightarrow> subsampling \<Rightarrow> error + (string \<rightharpoonup> (string \<rightharpoonup> tensor))" where
  "toy_forward p mode batch subsample =
     ebind (getitem batch ''image'') (\<lambda>image.
     Inr [''logits'' \<mapsto> [''label'' \<mapsto>
       Tensor [of_nat (length (tensor_rows image)), 3] (map (add_bias p) (tensor_rows image))]])"

definition toy_ext :: "(nat, nat, tensor) ext" where
  "toy_ext =
     \<lparr>shape = tensor_shape, forward = toy_forward, loss_fn = mse_loss,
      zero_grad = (\<lambda>s. s), backward = (\<lambda>s mode batch subsample. Inr s),
      step = (\<lambda>(p, n). (Suc p, Suc n)),
      softmax = tensor_softmax, argmax = tensor_argmax, f1_score = weighted_f1\<rparr>"

definition toy_world :: "(nat, nat) world" where
  "toy_world =
     \<lparr>params = 0, optim = 0, training = False, inference = False,
      tape = (\<lambda>i. i), drawn = 0, trace = []\<rparr>"

text \<open>Five samples of classes 0, 0, 0, 1, 1 and two samples of classes 2, 1.\<close>

definition batch_a :: "tensor batch" where
  "batch_a =
     [''image'' \<mapsto> Tensor [5, 1, 3, 1]
        [[10, 0, 0], [0, 3 / 2, 0], [0, 0, 1 / 2], [0, 3 / 2, 0], [0, 0, 1 / 2]],
      ''audio'' \<mapsto> Tensor [5, 1024, 1] [],
      ''label'' \<mapsto> Tensor [5, 3] [[1, 0, 0], [1, 0, 0], [1, 0, 0], [0, 1, 0], [0, 1, 0]]]"

definition batch_b :: "tensor batch" where
  "batch_b =
     [''image'' \<mapsto> Tensor [2, 1, 3, 1] [[0, 0, 1], [0, 1, 0]],
      ''audio'' \<mapsto> Tensor [2, 1024, 1] [],
      ''label'' \<mapsto> Tensor [2, 3] [[0, 0, 1], [0, 1, 0]]]"

text \<open>
  The local variables and the world at the return of \<^verbatim>\<open>train\<close> for one batch of training data,
  the same batch as validation data, two epochs and patience 1 (computed below).
\<close>

definition toy_final :: "(nat, nat) run_state" where
  "toy_final =
     \<lparr>train_losses = [29 / 5], val_losses = [94 / 15], train_fscores = [1 / 2],
      val_fscores = [1 / 2], prev_val_score = 3 / 10, no_improv_epochs = 1,
      wld = \<lparr>params = 2, optim = 2, training = False, inference = False,
        tape = (\<lambda>i. i), drawn = 4,
        trace =
          [Model_to_device,
           Model_train, Forward True False, Zero_grad, Backward, Optimizer_step,
           Wandb_log [(''batch train loss'', 29 / 5)],
           Model_eval, Inference_enter, Forward False True, Inference_exit,
           Wandb_log [(''train loss'', 29 / 5), (''val loss'', 94 / 15), (''train F1'', 1 / 2),
             (''val F1'', 1 / 2), (''epoch'', 0)],
           Model_train, Forward True False, Zero_grad, Backward, Optimizer_step,
           Wandb_log [(''batch train loss'', 94 / 15)],
           Model_eval, Inference_enter, Forward False True, Inference_exit]\<rparr>\<rparr>"

section \<open>Properties of the subsampling generator\<close>

lemma ebind_Inl [simp]: "ebind (Inl e) f = Inl e"
  by (simp add: ebind_def)

lemma ebind_Inr [simp]: "ebind (Inr x) f = f x"
  by (simp add: ebind_def)

lemma ebind_eq_Inr: "ebind m f = Inr y \<longleftrightarrow> (\<exists>x. m = Inr x \<and> f x = Inr y)"
  by (cases m) simp_all

subsection \<open>Wrap-around of 64-bit integers\<close>

lemma fits_sint [simp]: "fits_int64 (sint (w :: int64))"
  using sint_ge [of w] sint_lt [of w] by (simp add: fits_int64_def)

lemma sint_of_int_fits: "fits_int64 k \<Longrightarrow> sint (word_of_int k :: int64) = k"
  by (simp add: sint_sbintrunc' signed_take_bit_int_eq_self fits_int64_def)

lemma sint_of_int_mod: "sint (word_of_int k :: int64) mod 2 ^ 64 = k mod 2 ^ 64"
proof -
  have "take_bit 64 (signed_take_bit 63 k) = take_bit 64 k"
    by (rule take_bit_signed_take_bit) simp
  then show ?thesis by (simp add: sint_sbintrunc' take_bit_eq_mod)
qed

lemma to_int64_Inr: "to_int64 k = Inr w \<longleftrightarrow> fits_int64 k \<and> w = word_of_int k"
  by (auto simp: to_int64_def)

lemma mod64_zero_small:
  fixes d :: int
  assumes "d mod 2 ^ 64 = 0" "- (2 ^ 64) < d" "d < 2 ^ 64"
  shows "d = 0"
proof -
  from assms(1) obtain q where q: "d = 2 ^ 64 * q" by (auto simp: mod_eq_0_iff_dvd)
  with assms(2,3) have "- 1 < q" "q < 1" by simp_all
  with q show ?thesis by simp
qed

lemma wrapped_range_length:
  fixes cs idx :: int
  assumes "fits_int64 cs"
    and S: "S = sint (word_of_int cs * word_of_int idx :: int64)"
    and E: "E = sint (word_of_int cs * word_of_int (idx + 1) :: int64)"
    and "S \<le> E" "fits_int64 (E - S)"
  shows "E - S = cs"
proof -
  have S': "S mod 2 ^ 64 = (cs * idx) mod 2 ^ 64"
    unfolding S using sint_of_int_mod [of "cs * idx"] by simp
  have E': "E mod 2 ^ 64 = (cs * (idx + 1)) mod 2 ^ 64"
    unfolding E using sint_of_int_mod [of "cs * (idx + 1)"] by simp
  have "(E - S - cs) mod 2 ^ 64 = (cs * (idx + 1) - cs * idx - cs) mod 2 ^ 64"
    using S' E' by (intro mod_diff_cong) simp_all
  also have "cs * (idx + 1) - cs * idx - cs = 0" by (simp add: algebra_simps)
  finally have "(E - S - cs) mod 2 ^ 64 = 0" by simp
  moreover from assms(1,4,5) have "- (2 ^ 64) < E - S - cs" "E - S - cs < 2 ^ 64"
    by (simp_all add: fits_int64_def)
  ultimately have "E - S - cs = 0" by (rule mod64_zero_small)
  then show ?thesis by simp
qed

lemma div_mult_le_int:
  fixes a n :: int
  assumes "0 < n"
  shows "(a div n) * n \<le> a"
proof -
  note eq = mult_div_mod_eq [of n a]
  have "0 \<le> a mod n" using assms by simp
  with eq have "n * (a div n) \<le> a" by linarith
  then show ?thesis by (simp add: mult.commute)
qed

lemma div_fits:
  fixes a n :: int
  assumes "fits_int64 a" "1 \<le> n"
  shows "fits_int64 (a div n)"
proof (cases "0 \<le> a")
  case True
  with assms(2) have "a div n \<le> a div 1" by (intro zdiv_mono2) simp_all
  moreover from True assms(2) have "0 \<le> a div n" by (simp add: pos_imp_zdiv_nonneg_iff)
  ultimately show ?thesis using assms(1) by (simp add: fits_int64_def)
next
  case False
  with assms(2) have "a div 1 \<le> a div n" by (intro zdiv_mono2_neg) simp_all
  moreover from False assms(2) have "a div n < 0" by (simp add: div_neg_pos_less0)
  ultimately show ?thesis using assms(1) by (simp add: fits_int64_def)
qed


subsection \<open>The chunk sizes and the image range\<close>

lemma word_of_int_pos_neq_0:
  assumes "1 \<le> n" "fits_int64 n"
  shows "(word_of_int n :: int64) \<noteq> 0"
proof
  assume "(word_of_int n :: int64) = 0"
  then have "sint (word_of_int n :: int64) = 0" by simp
  with sint_of_int_fits [OF assms(2)] assms(1) show False by simp
qed

lemma np_floordiv_int:
  assumes "slice_1_m1 im \<noteq> []" "1 \<le> n" "fits_int64 n"
  shows "np_floordiv (np_prod (slice_1_m1 im)) n =
      Inr (Int64 (word_of_int (sint (prod_list (slice_1_m1 im)) div n)))"
  using assms word_of_int_pos_neq_0 [OF assms(2,3)]
  by (cases "slice_1_m1 im") (simp_all add: np_prod_def to_int64_def sint_of_int_fits)

lemma np_floordiv_int_overflow:
  assumes "slice_1_m1 im \<noteq> []" "\<not> fits_int64 n"
  shows "np_floordiv (np_prod (slice_1_m1 im)) n = Inl OverflowError"
  using assms by (cases "slice_1_m1 im") (simp_all add: np_prod_def to_int64_def)

lemma np_floordiv_float:
  assumes "slice_1_m1 im = []" "1 \<le> n"
  shows "np_floordiv (np_prod (slice_1_m1 im)) n = Inr (Float64 (of_int (1 div n)))"
proof -
  have "\<lfloor>1 / (of_int n :: real)\<rfloor> = 1 div n"
    using floor_divide_of_int_eq [of 1 n, where ?'a = real] by simp
  with assms show ?thesis by (simp add: np_prod_def)
qed

lemma image_chunk_size_int:
  assumes "slice_1_m1 im \<noteq> []" "1 \<le> n" "fits_int64 n"
  shows "image_chunk_size n im = sint (prod_list (slice_1_m1 im)) div n"
  unfolding image_chunk_size_def np_floordiv_int [OF assms]
  by (simp add: sint_of_int_fits div_fits assms(2))

lemma image_chunk_size_float:
  assumes "slice_1_m1 im = []" "1 \<le> n"
  shows "image_chunk_size n im = 1 div n"
  unfolding image_chunk_size_def np_floordiv_float [OF assms] by simp

lemma image_range_exact:
  assumes n: "1 \<le> n" and idx: "0 \<le> idx" "idx \<le> n"
    and v: "np_floordiv (np_prod (slice_1_m1 im)) n = Inr v"
    and a: "np_mul v idx = Inr a" and b: "np_mul v (idx + 1) = Inr b"
    and xs: "torch_arange a b = Inr xs"
  shows "0 \<le> image_chunk_size n im \<and>
     xs = [image_chunk_size n im * idx..image_chunk_size n im * (idx + 1) - 1]"
proof (cases "slice_1_m1 im = []")
  case True
  have c: "0 \<le> 1 div n" using n by (simp add: pos_imp_zdiv_nonneg_iff)
  from v have v': "v = Float64 (of_int (1 div n))" unfolding np_floordiv_float [OF True n] by simp
  from a b have ab: "a = Float64 (of_int ((1 div n) * idx))" "b = Float64 (of_int ((1 div n) * (idx + 1)))"
    unfolding v' by simp_all
  have "\<lceil>(of_int (1 div n) :: real) * of_int idx\<rceil> = \<lceil>(of_int ((1 div n) * idx) :: real)\<rceil>"
    by simp
  also have "\<dots> = (1 div n) * idx" by (rule ceiling_of_int)
  finally have c1: "\<lceil>(of_int (1 div n) :: real) * of_int idx\<rceil> = (1 div n) * idx" .
  have "\<lceil>(of_int (1 div n) :: real) * (of_int idx + 1)\<rceil> =
      \<lceil>(of_int ((1 div n) * (idx + 1)) :: real)\<rceil>"
    by simp
  also have "\<dots> = (1 div n) * (idx + 1)" by (rule ceiling_of_int)
  finally have c2: "\<lceil>(of_int (1 div n) :: real) * (of_int idx + 1)\<rceil> = (1 div n) * (idx + 1)" .
  from xs have "xs = [(1 div n) * idx..(1 div n) * (idx + 1) - 1]"
    unfolding ab by (simp add: c1 c2 split: if_splits)
  with c show ?thesis by (simp add: image_chunk_size_float [OF True n])
next
  case False
  from v have fn: "fits_int64 n" using np_floordiv_int_overflow [OF False, of n] by (cases "fits_int64 n") simp_all
  let ?A = "sint (prod_list (slice_1_m1 im))"
  let ?cs = "?A div n"
  have cs: "image_chunk_size n im = ?cs" by (rule image_chunk_size_int [OF False n fn])
  have fcs: "fits_int64 ?cs" by (rule div_fits [OF _ n]) simp
  from v have v': "v = Int64 (word_of_int ?cs)" unfolding np_floordiv_int [OF False n fn] by simp
  from a b have ab: "a = Int64 (word_of_int ?cs * word_of_int idx)"
    "b = Int64 (word_of_int ?cs * word_of_int (idx + 1))"
    unfolding v' by (auto simp: ebind_eq_Inr to_int64_Inr)
  let ?S = "sint (word_of_int ?cs * word_of_int idx :: int64)"
  let ?E = "sint (word_of_int ?cs * word_of_int (idx + 1) :: int64)"
  from xs have ar: "?S \<le> ?E" "fits_int64 (?E - ?S)" "xs = [?S..?E - 1]"
    unfolding ab by (simp_all add: arange_def split: if_splits)
  have len: "?E - ?S = ?cs" by (rule wrapped_range_length [OF fcs refl refl ar(1,2)])
  with ar(1) have pos: "0 \<le> ?cs" by simp
  have "?cs * idx \<le> ?cs * n" using pos idx(2) by (rule mult_left_mono [rotated])
  also have "\<dots> \<le> ?A" using div_mult_le_int [of n ?A] n by simp
  finally have "?cs * idx \<le> ?A" .
  moreover have "?A < 2 ^ 63" using sint_lt [of "prod_list (slice_1_m1 im)"] by simp
  moreover have "0 \<le> ?cs * idx" using pos idx(1) by simp
  ultimately have "fits_int64 (?cs * idx)" by (simp add: fits_int64_def)
  then have "sint (word_of_int (?cs * idx) :: int64) = ?cs * idx" by (rule sint_of_int_fits)
  then have S: "?S = ?cs * idx" by simp
  with len have E: "?E = ?cs * (idx + 1)" by (simp add: algebra_simps)
  from pos ar(3) show ?thesis unfolding cs S E by simp
qed

lemma image_range_total:
  assumes n: "1 \<le> n" and idx: "0 \<le> idx" "idx \<le> n"
    and v: "np_floordiv (np_prod (slice_1_m1 im)) n = Inr v"
    and pos: "0 \<le> image_chunk_size n im"
    and fit: "slice_1_m1 im \<noteq> [] \<Longrightarrow>
        fits_int64 (idx + 1) \<and> fits_int64 (image_chunk_size n im * (idx + 1))"
  shows "\<exists>a b xs. np_mul v idx = Inr a \<and> np_mul v (idx + 1) = Inr b \<and> torch_arange a b = Inr xs"
proof (cases "slice_1_m1 im = []")
  case True
  have c: "0 \<le> 1 div n" using n by (simp add: pos_imp_zdiv_nonneg_iff)
  from v have v': "v = Float64 (of_int (1 div n))" unfolding np_floordiv_float [OF True n] by simp
  have "(of_int (1 div n) :: real) * of_int idx \<le> of_int (1 div n) * of_int (idx + 1)"
    using c by (intro mult_left_mono) simp_all
  then show ?thesis unfolding v' by simp
next
  case False
  from v have fn: "fits_int64 n" using np_floordiv_int_overflow [OF False, of n] by (cases "fits_int64 n") simp_all
  let ?cs = "sint (prod_list (slice_1_m1 im)) div n"
  have cs: "image_chunk_size n im = ?cs" by (rule image_chunk_size_int [OF False n fn])
  from v have v': "v = Int64 (word_of_int ?cs)" unfolding np_floordiv_int [OF False n fn] by simp
  from fit [OF False] have f1: "fits_int64 (idx + 1)" and f2: "fits_int64 (?cs * (idx + 1))"
    by (simp_all add: cs)
  from f1 idx(1) have f0: "fits_int64 idx" by (simp add: fits_int64_def)
  from pos cs have p: "0 \<le> ?cs" by simp
  have le: "?cs * idx \<le> ?cs * (idx + 1)" using p by (intro mult_left_mono) simp_all
  moreover have "0 \<le> ?cs * idx" using p idx(1) by simp
  ultimately have f3: "fits_int64 (?cs * idx)" using f2 by (simp add: fits_int64_def)
  have S: "sint (word_of_int ?cs * word_of_int idx :: int64) = ?cs * idx"
    using sint_of_int_fits [OF f3] by simp
  have E: "sint (word_of_int ?cs * word_of_int (idx + 1) :: int64) = ?cs * (idx + 1)"
    using sint_of_int_fits [OF f2] by simp
  have E': "sint (word_of_int ?cs * (word_of_int idx + 1) :: int64) = ?cs * (idx + 1)"
    using E by simp
  have "fits_int64 (?cs * (idx + 1) - ?cs * idx)"
    using div_fits [of "sint (prod_list (slice_1_m1 im))" n] n by (simp add: algebra_simps)
  with le f2 f3 show ?thesis
    unfolding v' by (simp add: to_int64_def f0 f1 S E' arange_def)
qed


subsection \<open>The result of the subsampling generator\<close>

lemma randint_Inr: "randint 0 n r = Inr idx \<longleftrightarrow> 0 \<le> n \<and> idx = int r mod (n + 1)"
  by (auto simp: randint_def randrange_def Let_def)

lemma randint_range: "randint 0 n r = Inr idx \<Longrightarrow> 0 \<le> idx \<and> idx \<le> n"
  using pos_mod_bound [of "n + 1" "int r"] by (auto simp: randint_Inr)

lemma randint_hits: "0 \<le> idx \<Longrightarrow> idx \<le> n \<Longrightarrow> randint 0 n (nat idx) = Inr idx"
  by (auto simp: randint_Inr)

lemma arange_Inr:
  "arange a b = Inr xs \<longleftrightarrow>
   fits_int64 a \<and> fits_int64 b \<and> a \<le> b \<and> fits_int64 (b - a) \<and> xs = [a..b - 1]"
  by (auto simp: arange_def)

lemma mult_step_nonneg: "(cs::int) * idx \<le> cs * (idx + 1) \<longleftrightarrow> 0 \<le> cs"
  by (simp add: distrib_left)

lemma generate_subsampling_steps:
  "generate_subsampling n spp im au r = Inr s \<longleftrightarrow>
   (\<exists>idx v a b xs ys. randint 0 n r = Inr idx \<and>
      np_floordiv (np_prod (slice_1_m1 im)) n = Inr v \<and>
      2 \<le> length au \<and> spp \<noteq> 0 \<and> n \<noteq> 0 \<and>
      np_mul v idx = Inr a \<and> np_mul v (idx + 1) = Inr b \<and> torch_arange a b = Inr xs \<and>
      arange (audio_chunk_size n spp au * idx) (audio_chunk_size n spp au * (idx + 1)) = Inr ys \<and>
      s = [''image'' \<mapsto> Some xs, ''audio'' \<mapsto> Some ys, ''label'' \<mapsto> None])"
  unfolding generate_subsampling_def audio_chunk_size_def ebind_eq_Inr seq_item_def floordiv_def
  by (auto split: if_splits)

lemma generate_subsampling_exact:
  assumes "generate_subsampling n spp im au r = Inr s"
  shows "\<exists>idx. randint 0 n r = Inr idx \<and> 0 \<le> idx \<and> idx \<le> n \<and> 1 \<le> n \<and> spp \<noteq> 0 \<and>
     2 \<le> length au \<and> 0 \<le> image_chunk_size n im \<and> 0 \<le> audio_chunk_size n spp au \<and>
     (\<exists>v. np_floordiv (np_prod (slice_1_m1 im)) n = Inr v) \<and>
     s = [''image'' \<mapsto> Some [image_chunk_size n im * idx..image_chunk_size n im * (idx + 1) - 1],
          ''audio'' \<mapsto> Some [audio_chunk_size n spp au * idx..audio_chunk_size n spp au * (idx + 1) - 1],
          ''label'' \<mapsto> None]"
proof -
  from assms obtain idx v a b xs ys where idx: "randint 0 n r = Inr idx"
    and v: "np_floordiv (np_prod (slice_1_m1 im)) n = Inr v"
    and au: "2 \<le> length au" and spp: "spp \<noteq> 0" and n0: "n \<noteq> 0"
    and a: "np_mul v idx = Inr a" and b: "np_mul v (idx + 1) = Inr b"
    and xs: "torch_arange a b = Inr xs"
    and ys: "arange (audio_chunk_size n spp au * idx) (audio_chunk_size n spp au * (idx + 1)) = Inr ys"
    and s: "s = [''image'' \<mapsto> Some xs, ''audio'' \<mapsto> Some ys, ''label'' \<mapsto> None]"
    unfolding generate_subsampling_steps by blast
  from idx have rng: "0 \<le> idx" "idx \<le> n" by (simp_all add: randint_range)
  with n0 have n: "1 \<le> n" by simp
  note im = image_range_exact [OF n rng v a b xs]
  from ys have au_rng: "0 \<le> audio_chunk_size n spp au"
    "ys = [audio_chunk_size n spp au * idx..audio_chunk_size n spp au * (idx + 1) - 1]"
    by (simp_all add: arange_Inr mult_step_nonneg)
  from idx rng n spp au im au_rng v s show ?thesis by blast
qed

lemma generate_subsampling_returns:
  assumes n: "1 \<le> n" and spp: "spp \<noteq> 0" and au: "2 \<le> length au"
    and idx: "randint 0 n r = Inr idx"
    and v: "np_floordiv (np_prod (slice_1_m1 im)) n = Inr v"
    and pos: "0 \<le> image_chunk_size n im"
    and fit: "slice_1_m1 im \<noteq> [] \<Longrightarrow>
        fits_int64 (idx + 1) \<and> fits_int64 (image_chunk_size n im * (idx + 1))"
    and apos: "0 \<le> audio_chunk_size n spp au"
    and afit: "fits_int64 (audio_chunk_size n spp au * (idx + 1))"
  shows "\<exists>s. generate_subsampling n spp im au r = Inr s"
proof -
  from idx have rng: "0 \<le> idx" "idx \<le> n" by (simp_all add: randint_range)
  from image_range_total [OF n rng v pos fit]
  obtain a b xs where ab: "np_mul v idx = Inr a" "np_mul v (idx + 1) = Inr b"
    "torch_arange a b = Inr xs" by blast
  let ?acs = "audio_chunk_size n spp au"
  have le: "?acs * idx \<le> ?acs * (idx + 1)" using apos by (simp add: mult_step_nonneg)
  have lo: "0 \<le> ?acs * idx" using apos rng(1) by simp
  from le lo afit have f1: "fits_int64 (?acs * idx)" by (simp add: fits_int64_def)
  have "?acs * (idx + 1) - ?acs * idx = ?acs" by (simp add: algebra_simps)
  moreover have "?acs \<le> ?acs * (idx + 1)" using apos rng(1) by (simp add: mult_le_cancel_left1)
  ultimately have f2: "fits_int64 (?acs * (idx + 1) - ?acs * idx)"
    using apos afit by (simp add: fits_int64_def)
  from le f1 f2 afit
  have "arange (?acs * idx) (?acs * (idx + 1)) = Inr [?acs * idx..?acs * (idx + 1) - 1]"
    by (simp add: arange_Inr)
  with idx v au spp n ab show ?thesis unfolding generate_subsampling_steps by auto
qed

subsection \<open>Shapes whose product fits 64 bits\<close>

lemma word_prod_list_sint: "(word_of_int (prod_list (map sint ws)) :: int64) = prod_list ws"
  by (induction ws) (simp_all add: word_of_int_hom_syms)

lemma sint_prod_list_fits:
  assumes "fits_int64 (prod_list (map sint ws))"
  shows "sint (prod_list ws :: int64) = prod_list (map sint ws)"
  using sint_of_int_fits [OF assms] by (simp add: word_prod_list_sint)

lemma image_chunk_size_fits:
  assumes "1 \<le> n" "fits_int64 n" "fits_int64 (prod_list (map sint (slice_1_m1 im)))"
  shows "image_chunk_size n im = prod_list (map sint (slice_1_m1 im)) div n"
proof (cases "slice_1_m1 im = []")
  case True
  then show ?thesis using image_chunk_size_float [OF True assms(1)] by simp
next
  case False
  then show ?thesis
    using image_chunk_size_int [OF False assms(1,2)] sint_prod_list_fits [OF assms(3)] by simp
qed

subsection \<open>Chunks of a fixed size\<close>

lemma chunk_disjoint:
  fixes cs :: int
  assumes "0 \<le> cs" "i \<noteq> j"
  shows "{cs * i..<cs * (i + 1)} \<inter> {cs * j..<cs * (j + 1)} = {}"
proof -
  have aux: "{cs * a..<cs * (a + 1)} \<inter> {cs * b..<cs * (b + 1)} = {}" if "a < b" for a b
  proof -
    from that have "a + 1 \<le> b" by simp
    with assms(1) have "cs * (a + 1) \<le> cs * b" by (rule mult_left_mono [rotated])
    then show ?thesis by auto
  qed
  from assms(2) consider "i < j" | "j < i" by linarith
  then show ?thesis
  proof cases
    case 1 then show ?thesis by (rule aux)
  next
    case 2 then show ?thesis using aux [of j i] by blast
  qed
qed

lemma chunk_cover:
  fixes cs :: int
  assumes "0 \<le> cs" "0 \<le> n"
  shows "(\<Union>i\<in>{0..<n}. {cs * i..<cs * (i + 1)}) = {0..<cs * n}"
proof (rule set_eqI, rule iffI)
  fix x assume "x \<in> (\<Union>i\<in>{0..<n}. {cs * i..<cs * (i + 1)})"
  then obtain i where i: "0 \<le> i" "i < n" "cs * i \<le> x" "x < cs * (i + 1)" by auto
  have "0 \<le> cs * i" using assms(1) i(1) by simp
  moreover have "cs * (i + 1) \<le> cs * n" using assms(1) i(2) by (intro mult_left_mono) simp_all
  ultimately show "x \<in> {0..<cs * n}" using i by simp
next
  fix x assume "x \<in> {0..<cs * n}"
  then have x: "0 \<le> x" "x < cs * n" by simp_all
  then have pos: "0 < cs" using assms by (cases "cs = 0") simp_all
  let ?i = "x div cs"
  note eq = mult_div_mod_eq [of cs x]
  have m: "0 \<le> x mod cs" "x mod cs < cs" using pos by simp_all
  have lo: "cs * ?i \<le> x" using eq m(1) by linarith
  have "cs * (?i + 1) = cs * ?i + cs" by (simp add: distrib_left)
  with eq m(2) have hi: "x < cs * (?i + 1)" by linarith
  have "0 \<le> ?i" using x(1) pos by (simp add: pos_imp_zdiv_nonneg_iff)
  moreover have "?i < n"
  proof (rule ccontr)
    assume "\<not> ?i < n"
    then have "cs * n \<le> cs * ?i" using pos by (intro mult_left_mono) simp_all
    with lo x(2) show False by linarith
  qed
  moreover note lo hi
  ultimately show "x \<in> (\<Union>i\<in>{0..<n}. {cs * i..<cs * (i + 1)})" by force
qed

lemma ivl_upto_less: "{a..b - 1} = {a..<b::int}"
  by auto

lemma div_le_self_int:
  fixes a b :: int
  assumes "0 \<le> a"
  shows "a div b \<le> a"
proof (cases "1 \<le> b")
  case True
  with assms have "a div b \<le> a div 1" by (intro zdiv_mono2) simp_all
  then show ?thesis by simp
next
  case False
  then consider "b = 0" | "b < 0" by linarith
  then show ?thesis
  proof cases
    case 1 with assms show ?thesis by simp
  next
    case 2
    with assms have "a div b \<le> 0" by (rule div_nonneg_neg_le0)
    with assms show ?thesis by simp
  qed
qed

lemma image_fit_below:
  assumes n: "1 \<le> n" and v: "np_floordiv (np_prod (slice_1_m1 im)) n = Inr v"
    and pos: "0 \<le> image_chunk_size n im" and idx: "0 \<le> idx" "idx < n"
    and ne: "slice_1_m1 im \<noteq> []"
  shows "fits_int64 (idx + 1) \<and> fits_int64 (image_chunk_size n im * (idx + 1))"
proof -
  from v have fn: "fits_int64 n"
    using np_floordiv_int_overflow [OF ne, of n] by (cases "fits_int64 n") simp_all
  let ?A = "sint (prod_list (slice_1_m1 im))"
  have cs: "image_chunk_size n im = ?A div n" by (rule image_chunk_size_int [OF ne n fn])
  from idx fn have f1: "fits_int64 (idx + 1)" by (simp add: fits_int64_def)
  from idx(2) have "idx + 1 \<le> n" by simp
  with pos have "image_chunk_size n im * (idx + 1) \<le> image_chunk_size n im * n"
    by (rule mult_left_mono [rotated])
  also have "\<dots> \<le> ?A" unfolding cs using div_mult_le_int [of n ?A] n by simp
  finally have "image_chunk_size n im * (idx + 1) \<le> ?A" .
  moreover have "?A < 2 ^ 63" using sint_lt [of "prod_list (slice_1_m1 im)"] by simp
  moreover have "0 \<le> image_chunk_size n im * (idx + 1)" using pos idx(1) by simp
  ultimately have "fits_int64 (image_chunk_size n im * (idx + 1))" by (simp add: fits_int64_def)
  with f1 show ?thesis ..
qed

lemma audio_fit_below:
  assumes n: "1 \<le> n" and au: "0 \<le> sint (au ! 1)"
    and pos: "0 \<le> audio_chunk_size n spp au" and idx: "0 \<le> idx" "idx < n"
  shows "fits_int64 (audio_chunk_size n spp au * (idx + 1))"
proof -
  let ?q = "sint (au ! 1) div spp"
  have acs: "audio_chunk_size n spp au = ?q div n" by (simp add: audio_chunk_size_def)
  from idx(2) have "idx + 1 \<le> n" by simp
  with pos have "audio_chunk_size n spp au * (idx + 1) \<le> audio_chunk_size n spp au * n"
    by (rule mult_left_mono [rotated])
  also have "\<dots> \<le> ?q" unfolding acs using div_mult_le_int [of n ?q] n by simp
  also have "\<dots> \<le> sint (au ! 1)" using au by (rule div_le_self_int)
  finally have "audio_chunk_size n spp au * (idx + 1) \<le> sint (au ! 1)" .
  moreover have "sint (au ! 1) < 2 ^ 63" using sint_lt [of "au ! 1"] by simp
  moreover have "0 \<le> audio_chunk_size n spp au * (idx + 1)" using pos idx(1) by simp
  ultimately show ?thesis by (simp add: fits_int64_def)
qed

lemma generate_subsampling_points:
  assumes "generate_subsampling n spp im au r = Inr s" "randint 0 n r = Inr idx"
  shows "points s ''image'' = {image_chunk_size n im * idx..<image_chunk_size n im * (idx + 1)}"
    and "points s ''audio'' =
      {audio_chunk_size n spp au * idx..<audio_chunk_size n spp au * (idx + 1)}"
    and "points s ''label'' = {}"
  using generate_subsampling_exact [OF assms(1)] assms(2)
  by (auto simp: points_def ivl_upto_less)

lemma generate_subsampling_below:
  assumes g: "generate_subsampling n spp im au r0 = Inr s0" and au: "0 \<le> sint (au ! 1)"
    and idx: "0 \<le> idx" "idx < n"
  shows "\<exists>s. generate_subsampling n spp im au (nat idx) = Inr s"
proof -
  from generate_subsampling_exact [OF g] obtain v where n: "1 \<le> n" and spp: "spp \<noteq> 0"
    and len: "2 \<le> length au" and pos: "0 \<le> image_chunk_size n im"
    and apos: "0 \<le> audio_chunk_size n spp au"
    and v: "np_floordiv (np_prod (slice_1_m1 im)) n = Inr v" by blast
  from idx have hit: "randint 0 n (nat idx) = Inr idx" by (simp add: randint_hits)
  show ?thesis
    by (rule generate_subsampling_returns [OF n spp len hit v pos _ apos])
      (rule image_fit_below [OF n v pos idx], assumption, rule audio_fit_below [OF n au apos idx])
qed

lemmas gs_eval = generate_subsampling_def randint_def randrange_def seq_item_def floordiv_def
  arange_def np_prod_def slice_1_m1_def to_int64_def fits_int64_def Let_def ebind_def

lemma gs_example: "generate_subsampling 32 16 [2, 8, 8, 3] [2, 1024, 1] 32 =
   Inr [''image'' \<mapsto> Some [64, 65], ''audio'' \<mapsto> Some [64, 65], ''label'' \<mapsto> None]"
  by (simp add: gs_eval upto_rec1)

text \<open>
  Claim C2: for every \<open>nchunks \<ge> 1\<close> the chunk index drawn at line 12 lies in the inclusive
  range \<open>[0, nchunks]\<close>; every value of that range, the boundary \<open>nchunks\<close> included, is drawn
  for some state of the random source, and the ranges \<^const>\<open>generate_subsampling\<close> returns are
  those of the drawn index, for the chunk sizes as lines 14 and 15 compute them.
\<close>

theorem chunk_index_inclusive_range:
  assumes "1 \<le> nchunks"
  shows "(\<forall>r. \<exists>idx. randint 0 nchunks r = Inr idx \<and> 0 \<le> idx \<and> idx \<le> nchunks) \<and>
         (\<forall>idx. 0 \<le> idx \<and> idx \<le> nchunks \<longrightarrow> (\<exists>r. randint 0 nchunks r = Inr idx)) \<and>
         (\<forall>spp im au r s. generate_subsampling nchunks spp im au r = Inr s \<longrightarrow>
            (\<exists>idx. randint 0 nchunks r = Inr idx \<and> 0 \<le> idx \<and> idx \<le> nchunks \<and>
               points s ''image'' =
                 {image_chunk_size nchunks im * idx..<image_chunk_size nchunks im * (idx + 1)} \<and>
               points s ''audio'' =
                 {audio_chunk_size nchunks spp au * idx..<
                  audio_chunk_size nchunks spp au * (idx + 1)}))"
proof (intro conjI allI impI)
  fix r
  from assms have "randint 0 nchunks r = Inr (int r mod (nchunks + 1))"
    by (simp add: randint_Inr)
  then show "\<exists>idx. randint 0 nchunks r = Inr idx \<and> 0 \<le> idx \<and> idx \<le> nchunks"
    using randint_range by blast
next
  fix idx assume "0 \<le> idx \<and> idx \<le> nchunks"
  then have "randint 0 nchunks (nat idx) = Inr idx" by (simp add: randint_hits)
  then show "\<exists>r. randint 0 nchunks r = Inr idx" ..
next
  fix spp im au r s
  assume g: "generate_subsampling nchunks spp im au r = Inr s"
  from generate_subsampling_exact [OF g] obtain idx
    where idx: "randint 0 nchunks r = Inr idx" "0 \<le> idx" "idx \<le> nchunks" by blast
  note p = generate_subsampling_points [OF g idx(1)]
  from idx p(1,2)
  show "\<exists>idx. randint 0 nchunks r = Inr idx \<and> 0 \<le> idx \<and> idx \<le> nchunks \<and>
      points s ''image'' =
        {image_chunk_size nchunks im * idx..<image_chunk_size nchunks im * (idx + 1)} \<and>
      points s ''audio'' =
        {audio_chunk_size nchunks spp au * idx..<audio_chunk_size nchunks spp au * (idx + 1)}"
    by blast
qed

theorem chunk_index_inclusive_range_witness:
  "(1::int) \<le> 32 \<and> randint 0 32 32 = Inr 32 \<and> (\<exists>r. randint 0 32 r = Inr 32) \<and>
   (\<exists>s. generate_subsampling 32 16 [2, 8, 8, 3] [2, 1024, 1] 32 = Inr s \<and>
        points s ''image'' = {64..<66} \<and> points s ''audio'' = {64..<66})"
proof -
  have h: "(1::int) \<le> 32" by simp
  note t = chunk_index_inclusive_range [OF h]
  have r: "randint 0 32 32 = Inr 32" by (simp add: randint_def randrange_def)
  from t have e: "\<exists>r. randint 0 32 r = Inr 32" by simp
  have g: "generate_subsampling 32 16 [2, 8, 8, 3] [2, 1024, 1] 32 =
     Inr [''image'' \<mapsto> Some [64, 65], ''audio'' \<mapsto> Some [64, 65], ''label'' \<mapsto> None]"
    by (rule gs_example)
  from t g obtain idx where i: "randint 0 32 32 = Inr idx"
    and p: "points [''image'' \<mapsto> Some [64, 65], ''audio'' \<mapsto> Some [64, 65], ''label'' \<mapsto> None] ''image'' =
        {image_chunk_size 32 [2, 8, 8, 3] * idx..<image_chunk_size 32 [2, 8, 8, 3] * (idx + 1)}"
    and q: "points [''image'' \<mapsto> Some [64, 65], ''audio'' \<mapsto> Some [64, 65], ''label'' \<mapsto> None] ''audio'' =
        {audio_chunk_size 32 16 [2, 1024, 1] * idx..<audio_chunk_size 32 16 [2, 1024, 1] * (idx + 1)}"
    by blast
  from i r have idx: "idx = 32" by simp
  have cs: "image_chunk_size 32 [2, 8, 8, 3] = 2"
    by (simp add: image_chunk_size_def gs_eval)
  have acs: "audio_chunk_size 32 16 [2, 1024, 1] = 2"
    by (simp add: audio_chunk_size_def)
  from p q have "points [''image'' \<mapsto> Some [64, 65], ''audio'' \<mapsto> Some [64, 65], ''label'' \<mapsto> None] ''image'' = {64..<66}"
    "points [''image'' \<mapsto> Some [64, 65], ''audio'' \<mapsto> Some [64, 65], ''label'' \<mapsto> None] ''audio'' = {64..<66}"
    unfolding idx cs acs by simp_all
  with h r e g show ?thesis by simp
qed

lemma prod_list_sint_nonneg:
  assumes "list_all (\<lambda>d. 0 \<le> sint d) ws"
  shows "0 \<le> prod_list (map sint ws)"
  using assms by (induction ws) simp_all

lemma generate_subsampling_dict:
  assumes "generate_subsampling n spp im au r = Inr s" "randint 0 n r = Inr idx"
  shows "s = [''image'' \<mapsto> Some [image_chunk_size n im * idx..image_chunk_size n im * (idx + 1) - 1],
           ''audio'' \<mapsto> Some [audio_chunk_size n spp au * idx..audio_chunk_size n spp au * (idx + 1) - 1],
           ''label'' \<mapsto> None]"
  using generate_subsampling_exact [OF assms(1)] assms(2) by auto

text \<open>
  Claim C3 does not hold as worded: the image chunk size of line 14 is computed in 64-bit
  integers, and the product of the shape wraps around. For the image shape
  \<open>(1, 2^32, 2^32, 1)\<close> and two chunks the product \<open>2^64\<close> wraps to 0, so the chunk size is 0
  and the image range of the drawn index 1 is empty, where the product floor-divided by
  \<open>nchunks\<close> is \<open>2^63\<close> and the range the claim gives is not empty.
\<close>

theorem image_chunk_size_wraps_counterexample:
  "generate_subsampling 2 16 [1, 4294967296, 4294967296, 1] [1, 64, 1] 1 =
     Inr [''image'' \<mapsto> Some [], ''audio'' \<mapsto> Some [2, 3], ''label'' \<mapsto> None] \<and>
   randint 0 2 1 = Inr 1 \<and>
   image_chunk_size 2 [1, 4294967296, 4294967296, 1] = 0 \<and>
   spec_image_chunk_size 2 [1, 4294967296, 4294967296, 1] = 9223372036854775808 \<and>
   [spec_image_chunk_size 2 [1, 4294967296, 4294967296, 1] * 1..
    spec_image_chunk_size 2 [1, 4294967296, 4294967296, 1] * (1 + 1) - 1] \<noteq> []"
proof -
  have g: "generate_subsampling 2 16 [1, 4294967296, 4294967296, 1] [1, 64, 1] 1 =
     Inr [''image'' \<mapsto> Some [], ''audio'' \<mapsto> Some [2, 3], ''label'' \<mapsto> None]"
    by (simp add: gs_eval upto_rec1)
  have r: "randint 0 2 1 = Inr 1" by (simp add: randint_def randrange_def)
  have c: "image_chunk_size 2 [1, 4294967296, 4294967296, 1] = 0"
    by (simp add: image_chunk_size_def gs_eval)
  have s: "spec_image_chunk_size 2 [1, 4294967296, 4294967296, 1] = 9223372036854775808"
    by (simp add: spec_image_chunk_size_def slice_1_m1_def)
  have "\<not> (9223372036854775808 * (1 + 1) - 1 < (9223372036854775808 :: int) * 1)" by simp
  then have ne: "[9223372036854775808 * 1..9223372036854775808 * (1 + 1) - 1] \<noteq> ([] :: int list)"
    unfolding upto_Nil .
  show ?thesis
  proof (intro conjI)
    show "generate_subsampling 2 16 [1, 4294967296, 4294967296, 1] [1, 64, 1] 1 =
      Inr [''image'' \<mapsto> Some [], ''audio'' \<mapsto> Some [2, 3], ''label'' \<mapsto> None]"
      by (rule g)
    show "randint 0 2 1 = Inr 1" by (rule r)
    show "image_chunk_size 2 [1, 4294967296, 4294967296, 1] = 0" by (rule c)
    show "spec_image_chunk_size 2 [1, 4294967296, 4294967296, 1] = 9223372036854775808"
      by (rule s)
    show "[spec_image_chunk_size 2 [1, 4294967296, 4294967296, 1] * 1..
      spec_image_chunk_size 2 [1, 4294967296, 4294967296, 1] * (1 + 1) - 1] \<noteq> []"
      unfolding s by (rule ne)
  qed
qed

text \<open>
  Claim C3, amended: whenever \<^const>\<open>generate_subsampling\<close> returns, with \<open>idx\<close> the drawn chunk
  index, the dict holds under \<open>image\<close> the indices
  \<open>[image_chunk_size * idx, image_chunk_size * (idx + 1))\<close> with \<open>image_chunk_size\<close> the value
  line 14 computes, which is the product of the image shape without its first and last entry,
  floor-divided by \<open>nchunks\<close>, when that product (and \<open>nchunks\<close>) fits a signed 64-bit integer;
  under \<open>audio\<close> the same with the audio length floor-divided by \<open>samples_per_patch\<close> and by
  \<open>nchunks\<close>; under \<open>label\<close> Python's None; and nothing else. It returns for positive
  \<open>nchunks\<close> and \<open>samples_per_patch\<close>, non-negative sizes and an audio shape with a length
  entry when the product and the largest bounds of the two ranges fit a signed 64-bit integer.
  The result is a function of the arguments and the random draw alone.
\<close>

theorem generate_subsampling_ranges:
  "(\<forall>s idx. generate_subsampling nchunks spp im_shape au_shape r = Inr s \<and>
        randint 0 nchunks r = Inr idx \<longrightarrow>
      (let ics = image_chunk_size nchunks im_shape;
           acs = audio_chunk_size nchunks spp au_shape
       in s ''image'' = Some (Some [ics * idx..ics * (idx + 1) - 1]) \<and>
          points s ''image'' = {ics * idx..<ics * (idx + 1)} \<and>
          s ''audio'' = Some (Some [acs * idx..acs * (idx + 1) - 1]) \<and>
          points s ''audio'' = {acs * idx..<acs * (idx + 1)} \<and>
          s ''label'' = Some None \<and>
          dom s = {''image'', ''audio'', ''label''})) \<and>
   (1 \<le> nchunks \<and> fits_int64 nchunks \<and>
    fits_int64 (prod_list (map sint (slice_1_m1 im_shape))) \<longrightarrow>
      image_chunk_size nchunks im_shape = spec_image_chunk_size nchunks im_shape) \<and>
   audio_chunk_size nchunks spp au_shape = sint (au_shape ! 1) div spp div nchunks \<and>
   (1 \<le> nchunks \<and> 1 \<le> spp \<and> 2 \<le> length au_shape \<and>
    list_all (\<lambda>d. 0 \<le> sint d) (slice_1_m1 im_shape) \<and> 0 \<le> sint (au_shape ! 1) \<and>
    fits_int64 (nchunks + 1) \<and> fits_int64 (prod_list (map sint (slice_1_m1 im_shape))) \<and>
    fits_int64 (spec_image_chunk_size nchunks im_shape * (nchunks + 1)) \<and>
    fits_int64 (audio_chunk_size nchunks spp au_shape * (nchunks + 1)) \<longrightarrow>
      (\<exists>s. generate_subsampling nchunks spp im_shape au_shape r = Inr s))"
proof (intro conjI allI impI)
  fix s idx
  assume a: "generate_subsampling nchunks spp im_shape au_shape r = Inr s \<and>
    randint 0 nchunks r = Inr idx"
  note d = generate_subsampling_dict [OF conjunct1 [OF a] conjunct2 [OF a]]
  show "let ics = image_chunk_size nchunks im_shape;
           acs = audio_chunk_size nchunks spp au_shape
       in s ''image'' = Some (Some [ics * idx..ics * (idx + 1) - 1]) \<and>
          points s ''image'' = {ics * idx..<ics * (idx + 1)} \<and>
          s ''audio'' = Some (Some [acs * idx..acs * (idx + 1) - 1]) \<and>
          points s ''audio'' = {acs * idx..<acs * (idx + 1)} \<and>
          s ''label'' = Some None \<and>
          dom s = {''image'', ''audio'', ''label''}"
    unfolding Let_def by (subst d)+ (auto simp: points_def)
next
  assume "1 \<le> nchunks \<and> fits_int64 nchunks \<and>
    fits_int64 (prod_list (map sint (slice_1_m1 im_shape)))"
  then show "image_chunk_size nchunks im_shape = spec_image_chunk_size nchunks im_shape"
    by (simp add: image_chunk_size_fits spec_image_chunk_size_def)
next
  show "audio_chunk_size nchunks spp au_shape = sint (au_shape ! 1) div spp div nchunks"
    by (simp add: audio_chunk_size_def)
next
  let ?P = "prod_list (map sint (slice_1_m1 im_shape))"
  let ?ics = "image_chunk_size nchunks im_shape"
  let ?acs = "audio_chunk_size nchunks spp au_shape"
  assume a: "1 \<le> nchunks \<and> 1 \<le> spp \<and> 2 \<le> length au_shape \<and>
    list_all (\<lambda>d. 0 \<le> sint d) (slice_1_m1 im_shape) \<and> 0 \<le> sint (au_shape ! 1) \<and>
    fits_int64 (nchunks + 1) \<and> fits_int64 ?P \<and>
    fits_int64 (spec_image_chunk_size nchunks im_shape * (nchunks + 1)) \<and>
    fits_int64 (?acs * (nchunks + 1))"
  then have n: "1 \<le> nchunks" and spp: "1 \<le> spp" and len: "2 \<le> length au_shape"
    and nonneg: "list_all (\<lambda>d. 0 \<le> sint d) (slice_1_m1 im_shape)"
    and au: "0 \<le> sint (au_shape ! 1)" and fn1: "fits_int64 (nchunks + 1)"
    and fP: "fits_int64 ?P"
    and fi: "fits_int64 (spec_image_chunk_size nchunks im_shape * (nchunks + 1))"
    and fa: "fits_int64 (?acs * (nchunks + 1))" by simp_all
  from n fn1 have fn: "fits_int64 nchunks" by (simp add: fits_int64_def)
  have ics: "?ics = ?P div nchunks" by (rule image_chunk_size_fits [OF n fn fP])
  have "0 \<le> ?P" by (rule prod_list_sint_nonneg [OF nonneg])
  with n have pos: "0 \<le> ?ics" unfolding ics by (simp add: pos_imp_zdiv_nonneg_iff)
  from au spp n have apos: "0 \<le> ?acs"
    by (simp add: audio_chunk_size_def pos_imp_zdiv_nonneg_iff)
  from n have "randint 0 nchunks r = Inr (int r mod (nchunks + 1))" by (simp add: randint_Inr)
  then obtain idx where idx: "randint 0 nchunks r = Inr idx" ..
  then have rng: "0 \<le> idx" "idx \<le> nchunks" by (simp_all add: randint_range)
  from rng fn1 have f1: "fits_int64 (idx + 1)" by (simp add: fits_int64_def)
  have v: "\<exists>v. np_floordiv (np_prod (slice_1_m1 im_shape)) nchunks = Inr v"
  proof (cases "slice_1_m1 im_shape = []")
    case True then show ?thesis using np_floordiv_float [OF True n] by simp
  next
    case False then show ?thesis using np_floordiv_int [OF False n fn] by simp
  qed
  then obtain v where v: "np_floordiv (np_prod (slice_1_m1 im_shape)) nchunks = Inr v" ..
  have below: "fits_int64 (c * (idx + 1))" if "0 \<le> c" "fits_int64 (c * (nchunks + 1))" for c
  proof -
    from rng(2) have "idx + 1 \<le> nchunks + 1" by simp
    with that(1) have "c * (idx + 1) \<le> c * (nchunks + 1)" by (rule mult_left_mono [rotated])
    moreover have "0 \<le> c * (idx + 1)" using that(1) rng(1) by simp
    ultimately show ?thesis using that(2) by (simp add: fits_int64_def)
  qed
  from fi have "fits_int64 (?ics * (nchunks + 1))" by (simp add: ics spec_image_chunk_size_def)
  with pos have f2: "fits_int64 (?ics * (idx + 1))" by (rule below)
  from apos fa have f3: "fits_int64 (?acs * (idx + 1))" by (rule below)
  from spp have spp0: "spp \<noteq> 0" by simp
  from f1 f2 show "\<exists>s. generate_subsampling nchunks spp im_shape au_shape r = Inr s"
    by (intro generate_subsampling_returns [OF n spp0 len idx v pos _ apos f3]) simp
qed

theorem generate_subsampling_ranges_witness:
  "generate_subsampling 32 16 [2, 8, 8, 3] [2, 1024, 1] 32 =
     Inr [''image'' \<mapsto> Some [64, 65], ''audio'' \<mapsto> Some [64, 65], ''label'' \<mapsto> None] \<and>
   randint 0 32 32 = Inr 32 \<and>
   (1 \<le> (32::int) \<and> fits_int64 32 \<and> fits_int64 (prod_list (map sint (slice_1_m1 [2, 8, 8, 3 :: int64])))) \<and>
   image_chunk_size 32 [2, 8, 8, 3] = 2 \<and> spec_image_chunk_size 32 [2, 8, 8, 3] = 2 \<and>
   audio_chunk_size 32 16 [2, 1024, 1] = 2 \<and>
   (1 \<le> (16::int) \<and> 2 \<le> length [2, 1024, 1 :: int64] \<and>
      list_all (\<lambda>d. 0 \<le> sint d) (slice_1_m1 [2, 8, 8, 3 :: int64]) \<and>
      0 \<le> sint ([2, 1024, 1 :: int64] ! 1) \<and> fits_int64 (32 + 1) \<and>
      fits_int64 (spec_image_chunk_size 32 [2, 8, 8, 3] * (32 + 1)) \<and>
      fits_int64 (audio_chunk_size 32 16 [2, 1024, 1] * (32 + 1))) \<and>
   (\<exists>s. generate_subsampling 32 16 [2, 8, 8, 3] [2, 1024, 1] 7 = Inr s) \<and>
   (let s = [''image'' \<mapsto> Some [64, 65], ''audio'' \<mapsto> Some [64, 65], ''label'' \<mapsto> None]
    in points s ''image'' = {64..<66} \<and> points s ''audio'' = {64..<66} \<and> s ''label'' = Some None)"
proof -
  have r: "randint 0 32 32 = Inr 32" by (simp add: randint_def randrange_def)
  have h1: "1 \<le> (32::int) \<and> fits_int64 32 \<and>
      fits_int64 (prod_list (map sint (slice_1_m1 [2, 8, 8, 3 :: int64])))"
    by (simp add: fits_int64_def slice_1_m1_def)
  have sp: "spec_image_chunk_size 32 [2, 8, 8, 3] = 2"
    by (simp add: spec_image_chunk_size_def slice_1_m1_def)
  have acs: "audio_chunk_size 32 16 [2, 1024, 1] = 2" by (simp add: audio_chunk_size_def)
  have h2: "1 \<le> (16::int) \<and> 2 \<le> length [2, 1024, 1 :: int64] \<and>
      list_all (\<lambda>d. 0 \<le> sint d) (slice_1_m1 [2, 8, 8, 3 :: int64]) \<and>
      0 \<le> sint ([2, 1024, 1 :: int64] ! 1) \<and> fits_int64 (32 + 1) \<and>
      fits_int64 (spec_image_chunk_size 32 [2, 8, 8, 3] * (32 + 1)) \<and>
      fits_int64 (audio_chunk_size 32 16 [2, 1024, 1] * (32 + 1))"
    unfolding sp acs by (simp add: fits_int64_def slice_1_m1_def)
  note t = generate_subsampling_ranges [of 32 16 "[2, 8, 8, 3]" "[2, 1024, 1]" 32]
  note t7 = generate_subsampling_ranges [of 32 16 "[2, 8, 8, 3]" "[2, 1024, 1]" 7]
  from t h1 sp have cs: "image_chunk_size 32 [2, 8, 8, 3] = 2" by simp
  from t7 h1 h2 have ex: "\<exists>s. generate_subsampling 32 16 [2, 8, 8, 3] [2, 1024, 1] 7 = Inr s"
    by blast
  from t gs_example r
  have p: "points [''image'' \<mapsto> Some [64, 65], ''audio'' \<mapsto> Some [64, 65], ''label'' \<mapsto> None] ''image'' = {64..<66} \<and>
        points [''image'' \<mapsto> Some [64, 65], ''audio'' \<mapsto> Some [64, 65::int], ''label'' \<mapsto> None] ''audio'' = {64..<66}"
    unfolding cs acs by (simp add: Let_def)
  from gs_example r h1 cs sp acs h2 ex p show ?thesis by (simp add: Let_def)
qed

text \<open>
  Claim C4: for fixed arguments (and so fixed chunk sizes, those lines 14 and 15 compute), the
  index ranges returned for distinct chunk indices are disjoint, for image and for audio, and
  the ranges of the chunk indices \<open>0, ..., nchunks - 1\<close> together are exactly
  \<open>[0, chunk_size * nchunks)\<close>, where the audio length is not negative.
\<close>

theorem chunk_ranges_partition:
  assumes "generate_subsampling nchunks spp im_shape au_shape r0 = Inr s0"
  shows "1 \<le> nchunks \<and>
    (\<forall>r1 r2 s1 s2. generate_subsampling nchunks spp im_shape au_shape r1 = Inr s1 \<and>
        generate_subsampling nchunks spp im_shape au_shape r2 = Inr s2 \<and>
        randint 0 nchunks r1 \<noteq> randint 0 nchunks r2 \<longrightarrow>
        points s1 ''image'' \<inter> points s2 ''image'' = {} \<and>
        points s1 ''audio'' \<inter> points s2 ''audio'' = {}) \<and>
    (0 \<le> sint (au_shape ! 1) \<longrightarrow>
      (\<forall>idx \<in> {0..<nchunks}. \<exists>r s. generate_subsampling nchunks spp im_shape au_shape r = Inr s \<and>
          randint 0 nchunks r = Inr idx) \<and>
      (\<forall>k \<in> {''image'', ''audio''}.
         (\<Union>idx \<in> {0..<nchunks}. \<Union>{points s k | s r.
              generate_subsampling nchunks spp im_shape au_shape r = Inr s \<and>
              randint 0 nchunks r = Inr idx}) =
         {0..<(if k = ''image'' then image_chunk_size nchunks im_shape
               else audio_chunk_size nchunks spp au_shape) * nchunks}))"
proof -
  let ?gs = "generate_subsampling nchunks spp im_shape au_shape"
  let ?ics = "image_chunk_size nchunks im_shape"
  let ?acs = "audio_chunk_size nchunks spp au_shape"
  from generate_subsampling_exact [OF assms]
  have n: "1 \<le> nchunks" and ics: "0 \<le> ?ics" and acs: "0 \<le> ?acs" by blast+
  have disj: "points s1 ''image'' \<inter> points s2 ''image'' = {} \<and> points s1 ''audio'' \<inter> points s2 ''audio'' = {}"
    if "?gs r1 = Inr s1 \<and> ?gs r2 = Inr s2 \<and> randint 0 nchunks r1 \<noteq> randint 0 nchunks r2" for r1 r2 s1 s2
  proof -
    from that have g1: "?gs r1 = Inr s1" and g2: "?gs r2 = Inr s2"
      and ne: "randint 0 nchunks r1 \<noteq> randint 0 nchunks r2" by simp_all
    from n have "randint 0 nchunks r1 = Inr (int r1 mod (nchunks + 1))"
      "randint 0 nchunks r2 = Inr (int r2 mod (nchunks + 1))" by (simp_all add: randint_Inr)
    then obtain i j where i: "randint 0 nchunks r1 = Inr i" and j: "randint 0 nchunks r2 = Inr j" by blast
    from ne i j have "i \<noteq> j" by simp
    then show ?thesis
      unfolding generate_subsampling_points(1,2) [OF g1 i] generate_subsampling_points(1,2) [OF g2 j]
      using chunk_disjoint [OF ics, of i j] chunk_disjoint [OF acs, of i j] by simp
  qed
  have ret: "\<exists>r s. ?gs r = Inr s \<and> randint 0 nchunks r = Inr idx"
    if au: "0 \<le> sint (au_shape ! 1)" and idx: "idx \<in> {0..<nchunks}" for idx
  proof -
    from idx have i: "0 \<le> idx" "idx < nchunks" by simp_all
    from i have hit: "randint 0 nchunks (nat idx) = Inr idx" by (simp add: randint_hits)
    from generate_subsampling_below [OF assms au i] obtain s where "?gs (nat idx) = Inr s" ..
    with hit show ?thesis by blast
  qed
  have chunk: "\<Union>{points s k | s r. ?gs r = Inr s \<and> randint 0 nchunks r = Inr idx} =
      {(if k = ''image'' then ?ics else ?acs) * idx..<(if k = ''image'' then ?ics else ?acs) * (idx + 1)}"
    if au: "0 \<le> sint (au_shape ! 1)" and idx: "idx \<in> {0..<nchunks}"
      and k: "k \<in> {''image'', ''audio''}" for idx k
  proof -
    from ret [OF au idx] obtain r s where s: "?gs r = Inr s" and hit: "randint 0 nchunks r = Inr idx"
      by blast
    have pts: "points s' k = {(if k = ''image'' then ?ics else ?acs) * idx..<(if k = ''image'' then ?ics else ?acs) * (idx + 1)}"
      if "?gs r' = Inr s'" "randint 0 nchunks r' = Inr idx" for s' r'
    proof -
      note generate_subsampling_points(1,2) [OF that]
      with k show ?thesis by auto
    qed
    show ?thesis
    proof (rule set_eqI, rule iffI)
      fix x assume "x \<in> \<Union>{points s k | s r. ?gs r = Inr s \<and> randint 0 nchunks r = Inr idx}"
      then obtain s' r' where "?gs r' = Inr s'" "randint 0 nchunks r' = Inr idx" "x \<in> points s' k" by blast
      then show "x \<in> {(if k = ''image'' then ?ics else ?acs) * idx..<(if k = ''image'' then ?ics else ?acs) * (idx + 1)}"
        using pts by blast
    next
      fix x assume "x \<in> {(if k = ''image'' then ?ics else ?acs) * idx..<(if k = ''image'' then ?ics else ?acs) * (idx + 1)}"
      then have "x \<in> points s k" using pts [OF s hit] by simp
      then show "x \<in> \<Union>{points s k | s r. ?gs r = Inr s \<and> randint 0 nchunks r = Inr idx}"
        using s hit by blast
    qed
  qed
  have cover: "(\<Union>idx \<in> {0..<nchunks}. \<Union>{points s k | s r. ?gs r = Inr s \<and> randint 0 nchunks r = Inr idx}) =
       {0..<(if k = ''image'' then ?ics else ?acs) * nchunks}"
    if au: "0 \<le> sint (au_shape ! 1)" and k: "k \<in> {''image'', ''audio''}" for k
  proof -
    have "(\<Union>idx \<in> {0..<nchunks}. \<Union>{points s k | s r. ?gs r = Inr s \<and> randint 0 nchunks r = Inr idx}) =
       (\<Union>idx \<in> {0..<nchunks}. {(if k = ''image'' then ?ics else ?acs) * idx..<(if k = ''image'' then ?ics else ?acs) * (idx + 1)})"
      using chunk [OF au _ k] by simp
    also have "\<dots> = {0..<(if k = ''image'' then ?ics else ?acs) * nchunks}"
      using ics acs n by (intro chunk_cover) auto
    finally show ?thesis .
  qed
  show ?thesis
  proof (intro conjI allI impI ballI)
    show "1 \<le> nchunks" by (rule n)
  next
    fix r1 r2 s1 s2
    assume "?gs r1 = Inr s1 \<and> ?gs r2 = Inr s2 \<and> randint 0 nchunks r1 \<noteq> randint 0 nchunks r2"
    from disj [OF this] show "points s1 ''image'' \<inter> points s2 ''image'' = {}"
      and "points s1 ''audio'' \<inter> points s2 ''audio'' = {}" by simp_all
  next
    fix idx assume "0 \<le> sint (au_shape ! 1)" "idx \<in> {0..<nchunks}"
    then show "\<exists>r s. ?gs r = Inr s \<and> randint 0 nchunks r = Inr idx" by (rule ret)
  next
    fix k :: string assume "0 \<le> sint (au_shape ! 1)" "k \<in> {''image'', ''audio''}"
    then show "(\<Union>idx \<in> {0..<nchunks}. \<Union>{points s k | s r. ?gs r = Inr s \<and> randint 0 nchunks r = Inr idx}) =
       {0..<(if k = ''image'' then ?ics else ?acs) * nchunks}" by (rule cover)
  qed
qed

theorem chunk_ranges_partition_witness:
  "generate_subsampling 2 1 [1, 2, 2, 3] [1, 4] 0 =
     Inr [''image'' \<mapsto> Some [0, 1], ''audio'' \<mapsto> Some [0, 1], ''label'' \<mapsto> None] \<and>
   generate_subsampling 2 1 [1, 2, 2, 3] [1, 4] 1 =
     Inr [''image'' \<mapsto> Some [2, 3], ''audio'' \<mapsto> Some [2, 3], ''label'' \<mapsto> None] \<and>
   randint 0 2 0 \<noteq> randint 0 2 1 \<and>
   points [''image'' \<mapsto> Some [0, 1], ''audio'' \<mapsto> Some [0, 1], ''label'' \<mapsto> None] ''image'' \<inter>
   points [''image'' \<mapsto> Some [2, 3], ''audio'' \<mapsto> Some [2, 3], ''label'' \<mapsto> None] ''image'' = {} \<and>
   0 \<le> sint ([1, 4 :: int64] ! 1) \<and> image_chunk_size 2 [1, 2, 2, 3] = 2 \<and>
   (\<Union>idx \<in> {0..<2}. \<Union>{points s ''image'' | s r.
       generate_subsampling 2 1 [1, 2, 2, 3] [1, 4] r = Inr s \<and> randint 0 2 r = Inr idx}) = {0..<4}"
proof -
  have g0: "generate_subsampling 2 1 [1, 2, 2, 3] [1, 4] 0 =
     Inr [''image'' \<mapsto> Some [0, 1], ''audio'' \<mapsto> Some [0, 1], ''label'' \<mapsto> None]"
    by (simp add: gs_eval upto_rec1)
  have g1: "generate_subsampling 2 1 [1, 2, 2, 3] [1, 4] 1 =
     Inr [''image'' \<mapsto> Some [2, 3], ''audio'' \<mapsto> Some [2, 3], ''label'' \<mapsto> None]"
    by (simp add: gs_eval upto_rec1)
  have ne: "randint 0 2 0 \<noteq> randint 0 2 1" by (simp add: randint_def randrange_def)
  have au: "0 \<le> sint ([1, 4 :: int64] ! 1)" by simp
  have cs: "image_chunk_size 2 [1, 2, 2, 3] = 2" by (simp add: image_chunk_size_def gs_eval)
  note t = chunk_ranges_partition [OF g0]
  have d: "points [''image'' \<mapsto> Some [0, 1], ''audio'' \<mapsto> Some [0, 1], ''label'' \<mapsto> None] ''image'' \<inter>
   points [''image'' \<mapsto> Some [2, 3], ''audio'' \<mapsto> Some [2, 3], ''label'' \<mapsto> None] ''image'' = {}"
    by (rule conjunct1 [OF conjunct1 [OF conjunct2 [OF t], rule_format,
          OF conjI [OF g0 conjI [OF g1 ne]]]])
  from t au have "\<forall>k \<in> {''image'', ''audio''}. (\<Union>idx \<in> {0..<2}. \<Union>{points s k | s r.
       generate_subsampling 2 1 [1, 2, 2, 3] [1, 4] r = Inr s \<and> randint 0 2 r = Inr idx}) =
       {0..<(if k = ''image'' then image_chunk_size 2 [1, 2, 2, 3]
             else audio_chunk_size 2 1 [1, 4]) * 2}"
    by (rule conjunct2 [OF mp [OF conjunct2 [OF conjunct2]]])
  then have "(\<Union>idx \<in> {0..<2}. \<Union>{points s ''image'' | s r.
       generate_subsampling 2 1 [1, 2, 2, 3] [1, 4] r = Inr s \<and> randint 0 2 r = Inr idx}) =
       {0..<(if ''image'' = ''image'' then image_chunk_size 2 [1, 2, 2, 3]
             else audio_chunk_size 2 1 [1, 4]) * 2}"
    by (rule bspec) simp
  then have c: "(\<Union>idx \<in> {0..<2}. \<Union>{points s ''image'' | s r.
       generate_subsampling 2 1 [1, 2, 2, 3] [1, 4] r = Inr s \<and> randint 0 2 r = Inr idx}) = {0..<4}"
    unfolding cs by simp
  from g0 g1 ne d au cs c show ?thesis by (intro conjI)
qed

section \<open>Properties of the training loop\<close>

subsection \<open>Loop bodies and per-batch values\<close>

lemma argmax_from_mono:
  assumes "strict_mono f"
  shows "argmax_from i b (f v) (map f xs) = argmax_from i b v xs"
  using assms by (induction xs arbitrary: i b v) (simp_all add: strict_mono_less)

lemma sum_exp_pos: "xs \<noteq> [] \<Longrightarrow> 0 < sum_list (map exp (xs :: real list))"
proof (induction xs)
  case Nil
  then show ?case by simp
next
  case (Cons a xs)
  have "0 \<le> sum_list (map exp xs)" by (intro sum_list_nonneg) auto
  moreover have "0 < exp a" by simp
  ultimately show ?case by (simp add: add_pos_nonneg)
qed

lemma argmax_row_softmax [simp]: "argmax_row (softmax_row xs) = argmax_row xs"
proof (cases xs)
  case Nil
  then show ?thesis by (simp add: softmax_row_def)
next
  case (Cons x ys)
  define S where "S = sum_list (map exp xs)"
  have "0 < S" unfolding S_def using Cons by (intro sum_exp_pos) simp
  then have "strict_mono (\<lambda>x. exp x / S)"
    by (intro strict_monoI) (simp add: divide_strict_right_mono)
  from argmax_from_mono [OF this, of 1 0 x ys]
  have "argmax_row (map (\<lambda>x. exp x / S) xs) = argmax_row xs"
    unfolding argmax_row_def Cons by simp
  then show ?thesis by (simp add: softmax_row_def S_def)
qed

lemma map_result_cong: "(\<And>x. x \<in> set xs \<Longrightarrow> f (g x) = h x) \<Longrightarrow> map_result f (map g xs) = map_result h xs"
  by (induction xs) simp_all

lemma tensor_argmax_softmax [simp]: "tensor_argmax (tensor_softmax t) = tensor_argmax t"
  by (cases t) (simp add: tensor_argmax_def tensor_softmax_def map_result_cong)

lemma train_body_shift:
  "train_body ext (L, F, w) b =
     ebind (train_body ext (0, 0, w) b) (\<lambda>(l, f, w'). Inr (L + l, F + f, w'))"
  unfolding train_body_def
  by (simp add: ebind_def Let_def split: sum.splits prod.splits)

lemma val_body_shift:
  "val_body ext (L, F, w) b =
     ebind (val_body ext (0, 0, w) b) (\<lambda>(l, f, w'). Inr (L + l, F + f, w'))"
  unfolding val_body_def
  by (simp add: ebind_def Let_def split: sum.splits prod.splits)

lemma test_step_body_shift:
  "test_step_body ext (G, P, w) b =
     ebind (test_step_body ext ([], [], w) b) (\<lambda>(g, p, w'). Inr (G @ g, P @ p, w'))"
  unfolding test_step_body_def
  by (simp add: ebind_def Let_def split: sum.splits prod.splits)

lemma test_for_eval_body_eq: "test_for_eval_body = test_step_body"
  by (intro ext) (simp add: test_for_eval_body_def test_step_body_def)

lemma train_body_world:
  assumes "train_body ext (L, F, w) b = Inr (L', F', w')"
  shows "trace w' = trace w @ [Forward (training w) (inference w), Zero_grad, Backward,
           Optimizer_step, Wandb_log [(''batch train loss'', L' - L)]]"
    and "training w' = training w" and "inference w' = inference w"
    and "drawn w' = Suc (drawn w)" and "tape w' = tape w"
  using assms unfolding train_body_def
  by (auto simp: ebind_eq_Inr Let_def draw_def emit_def split_beta)

lemma toy_sel:
  "shape toy_ext = tensor_shape" "forward toy_ext = toy_forward" "loss_fn toy_ext = mse_loss"
  "zero_grad toy_ext = (\<lambda>s. s)" "backward toy_ext = (\<lambda>s mode batch subsample. Inr s)"
  "step toy_ext = (\<lambda>(p, n). (Suc p, Suc n))"
  "map_result argmax_row (tensor_rows (softmax toy_ext t)) = map_result argmax_row (tensor_rows t)"
  "argmax toy_ext = tensor_argmax"
  "f1_score toy_ext = weighted_f1"
  using tensor_argmax_softmax [of t] by (simp_all add: toy_ext_def tensor_argmax_def)

lemmas toy_eval = toy_sel toy_forward_def tensor_argmax_def argmax_row_def mse_loss_def
  weighted_f1_def class_f1_def add_bias_def getitem_def emit_def draw_def truediv_def
  batch_a_def batch_b_def

lemma run_batches_length: "run_batches f xs w = Inr (vs, w') \<Longrightarrow> length vs = length xs"
  by (induction xs arbitrary: w vs) (auto simp: ebind_eq_Inr)

lemma for_each_train:
  "for_each (train_body ext) xs (L, F, w) =
     ebind (run_batches (train_batch ext) xs w)
       (\<lambda>(vs, w'). Inr (L + sum_list (map fst vs), F + sum_list (map snd vs), w'))"
proof (induction xs arbitrary: L F w)
  case Nil
  show ?case by simp
next
  case (Cons x xs)
  show ?case
  proof (cases "train_body ext (0, 0, w) x")
    case (Inl e)
    then have "train_batch ext w x = Inl e" "train_body ext (L, F, w) x = Inl e"
      by (simp_all add: train_body_shift [of ext L F] train_batch_def)
    then show ?thesis by simp
  next
    case (Inr r)
    obtain l f w1 where r: "r = (l, f, w1)" by (cases r) auto
    have "train_batch ext w x = Inr ((l, f), w1)" "train_body ext (L, F, w) x = Inr (L + l, F + f, w1)"
      by (simp_all add: train_body_shift [of ext L F] train_batch_def Inr r)
    then show ?thesis
      by (cases "run_batches (train_batch ext) xs w1") (auto simp: Cons.IH add.assoc)
  qed
qed

lemma for_each_val:
  "for_each (val_body ext) xs (L, F, w) =
     ebind (run_batches (val_batch ext) xs w)
       (\<lambda>(vs, w'). Inr (L + sum_list (map fst vs), F + sum_list (map snd vs), w'))"
proof (induction xs arbitrary: L F w)
  case Nil
  show ?case by simp
next
  case (Cons x xs)
  show ?case
  proof (cases "val_body ext (0, 0, w) x")
    case (Inl e)
    then have "val_batch ext w x = Inl e" "val_body ext (L, F, w) x = Inl e"
      by (simp_all add: val_body_shift [of ext L F] val_batch_def)
    then show ?thesis by simp
  next
    case (Inr r)
    obtain l f w1 where r: "r = (l, f, w1)" by (cases r) auto
    have "val_batch ext w x = Inr ((l, f), w1)" "val_body ext (L, F, w) x = Inr (L + l, F + f, w1)"
      by (simp_all add: val_body_shift [of ext L F] val_batch_def Inr r)
    then show ?thesis
      by (cases "run_batches (val_batch ext) xs w1") (auto simp: Cons.IH add.assoc)
  qed
qed

lemma train_step_mean:
  assumes "dataloader \<noteq> []"
  shows "train_step ext dataloader w =
     ebind (run_batches (train_batch ext) dataloader (emit Model_train (w\<lparr>training := True\<rparr>)))
       (\<lambda>(vs, w'). Inr (mean (map fst vs), mean (map snd vs), w'))"
proof (cases "run_batches (train_batch ext) dataloader (emit Model_train (w\<lparr>training := True\<rparr>))")
  case (Inl e)
  then show ?thesis by (simp add: train_step_def for_each_train)
next
  case (Inr r)
  obtain vs w' where r: "r = (vs, w')" by (cases r) auto
  from Inr r have "length vs = length dataloader" by (simp add: run_batches_length)
  with assms show ?thesis
    by (simp add: train_step_def for_each_train Inr r truediv_def mean_def)
qed

lemma val_step_mean:
  assumes "dataloader \<noteq> []"
  shows "val_step ext dataloader w =
     ebind (run_batches (val_batch ext) dataloader
        (emit Inference_enter ((emit Model_eval (w\<lparr>training := False\<rparr>))\<lparr>inference := True\<rparr>)))
       (\<lambda>(vs, w'). Inr (mean (map fst vs), mean (map snd vs),
          emit Inference_exit (w'\<lparr>inference := inference w\<rparr>)))"
proof (cases "run_batches (val_batch ext) dataloader
        (emit Inference_enter ((emit Model_eval (w\<lparr>training := False\<rparr>))\<lparr>inference := True\<rparr>))")
  case (Inl e)
  then show ?thesis by (simp add: val_step_def for_each_val Let_def emit_def)
next
  case (Inr r)
  obtain vs w' where r: "r = (vs, w')" by (cases r) auto
  from Inr r have "length vs = length dataloader" by (simp add: run_batches_length)
  with assms show ?thesis using Inr r
    by (simp add: val_step_def for_each_val truediv_def mean_def Let_def emit_def)
qed

lemma step_empty:
  "train_step ext [] w = Inl ZeroDivisionError" "val_step ext [] w = Inl ZeroDivisionError"
  by (simp_all add: train_step_def val_step_def truediv_def Let_def)

lemma val_batch_scores:
  "val_batch ext w b =
     ebind (batch_scores ext w b)
       (\<lambda>v. Inr (v, emit (Forward (training w) (inference w)) (w\<lparr>drawn := Suc (drawn w)\<rparr>)))"
  unfolding val_batch_def val_body_def batch_scores_def
  by (simp add: ebind_def Let_def draw_def emit_def split: sum.splits)

lemma train_batch_scores:
  assumes "train_batch ext w b = Inr (v, w')"
  shows "batch_scores ext w b = Inr v"
  using assms unfolding train_batch_def train_body_def batch_scores_def
  by (auto simp: ebind_eq_Inr Let_def draw_def emit_def split_beta)

lemma train_batch_world:
  assumes "train_batch ext w b = Inr (v, w')"
  shows "trace w' = trace w @ [Forward (training w) (inference w), Zero_grad, Backward,
           Optimizer_step, Wandb_log [(''batch train loss'', fst v)]]"
    and "training w' = training w" and "inference w' = inference w"
    and "drawn w' = Suc (drawn w)" and "tape w' = tape w"
proof -
  from assms obtain l f where b: "train_body ext (0, 0, w) b = Inr (l, f, w')" and v: "v = (l, f)"
    by (auto simp: train_batch_def ebind_eq_Inr)
  from train_body_world [OF b] v
  show "trace w' = trace w @ [Forward (training w) (inference w), Zero_grad, Backward,
           Optimizer_step, Wandb_log [(''batch train loss'', fst v)]]"
    and "training w' = training w" and "inference w' = inference w"
    and "drawn w' = Suc (drawn w)" and "tape w' = tape w" by simp_all
qed

lemma run_batches_train_world:
  assumes "run_batches (train_batch ext) xs w = Inr (vs, w')"
  shows "trace w' = trace w @ concat (map (\<lambda>v. [Forward (training w) (inference w), Zero_grad,
           Backward, Optimizer_step, Wandb_log [(''batch train loss'', fst v)]]) vs) \<and>
         training w' = training w \<and> inference w' = inference w \<and>
         drawn w' = drawn w + length xs \<and> tape w' = tape w"
  using assms
proof (induction xs arbitrary: w vs)
  case Nil
  then show ?case by simp
next
  case (Cons x xs)
  from Cons.prems obtain v w1 vs' where
    1: "train_batch ext w x = Inr (v, w1)" and 2: "run_batches (train_batch ext) xs w1 = Inr (vs', w')"
    and vs: "vs = v # vs'"
    by (auto simp: ebind_eq_Inr)
  from Cons.IH [OF 2] train_batch_world [OF 1] vs show ?case by simp
qed

lemma batch_loss_logs_train:
  "batch_loss_logs (concat (map (\<lambda>v. [Forward a b, Zero_grad, Backward, Optimizer_step,
      Wandb_log [(''batch train loss'', fst v)]]) vs)) = map fst vs"
  by (induction vs) (simp_all add: batch_loss_logs_def)

text \<open>
  Claim C5: for a non-empty data loader the loss and the F1 score that the train step and
  the validation step return are the arithmetic means, over the number of batches, of the
  per-batch losses and F1 scores - whatever the batches' sample counts. The per-batch values
  are the batch's \<open>loss_fn\<close> value and weighted F1 score; for the train step the mean loss is
  also the mean of the losses it logged per batch.
\<close>

theorem epoch_means_are_batch_means:
  fixes ext :: "('p, 'o, 't) ext"
  shows "(dataloader \<noteq> [] \<longrightarrow>
      train_step ext dataloader w =
        ebind (run_batches (train_batch ext) dataloader (emit Model_train (w\<lparr>training := True\<rparr>)))
          (\<lambda>(vs, w'). Inr (mean (map fst vs), mean (map snd vs), w')) \<and>
      val_step ext dataloader w =
        ebind (run_batches (val_batch ext) dataloader
           (emit Inference_enter ((emit Model_eval (w\<lparr>training := False\<rparr>))\<lparr>inference := True\<rparr>)))
          (\<lambda>(vs, w'). Inr (mean (map fst vs), mean (map snd vs),
             emit Inference_exit (w'\<lparr>inference := inference w\<rparr>)))) \<and>
   (\<forall>f w0 vs w'. run_batches f dataloader w0 = Inr (vs, w') \<longrightarrow> length vs = length dataloader) \<and>
   (\<forall>w0 b v w'. train_batch ext w0 b = Inr (v, w') \<or> val_batch ext w0 b = Inr (v, w') \<longrightarrow>
      batch_scores ext w0 b = Inr v) \<and>
   (\<forall>loss f1 w'. train_step ext dataloader w = Inr (loss, f1, w') \<longrightarrow>
      loss = mean (batch_loss_logs (drop (length (trace w)) (trace w'))))"
proof (intro conjI allI impI)
  assume "dataloader \<noteq> []"
  then show "train_step ext dataloader w =
        ebind (run_batches (train_batch ext) dataloader (emit Model_train (w\<lparr>training := True\<rparr>)))
          (\<lambda>(vs, w'). Inr (mean (map fst vs), mean (map snd vs), w'))"
    by (rule train_step_mean)
next
  assume "dataloader \<noteq> []"
  then show "val_step ext dataloader w =
        ebind (run_batches (val_batch ext) dataloader
           (emit Inference_enter ((emit Model_eval (w\<lparr>training := False\<rparr>))\<lparr>inference := True\<rparr>)))
          (\<lambda>(vs, w'). Inr (mean (map fst vs), mean (map snd vs),
             emit Inference_exit (w'\<lparr>inference := inference w\<rparr>)))"
    by (rule val_step_mean)
next
  fix f :: "'w \<Rightarrow> 't batch \<Rightarrow> error + 'v \<times> 'w" and w0 vs w'
  assume "run_batches f dataloader w0 = Inr (vs, w')"
  then show "length vs = length dataloader" by (rule run_batches_length)
next
  fix w0 :: "('p, 'o) world" and b v w'
  assume "train_batch ext w0 b = Inr (v, w') \<or> val_batch ext w0 b = Inr (v, w')"
  then show "batch_scores ext w0 b = Inr v"
    by (auto simp: val_batch_scores ebind_eq_Inr dest: train_batch_scores)
next
  fix loss f1 w'
  assume r: "train_step ext dataloader w = Inr (loss, f1, w')"
  then have ne: "dataloader \<noteq> []" using step_empty(1) [of ext w] by auto
  let ?w0 = "emit Model_train (w\<lparr>training := True\<rparr>)"
  from r obtain vs where rb: "run_batches (train_batch ext) dataloader ?w0 = Inr (vs, w')"
    and l: "loss = mean (map fst vs)"
    unfolding train_step_mean [OF ne] by (auto simp: ebind_eq_Inr)
  from run_batches_train_world [OF rb]
  have "drop (length (trace w)) (trace w') = Model_train #
     concat (map (\<lambda>v. [Forward (training ?w0) (inference ?w0), Zero_grad,
           Backward, Optimizer_step, Wandb_log [(''batch train loss'', fst v)]]) vs)"
    by (simp add: emit_def)
  then have "batch_loss_logs (drop (length (trace w)) (trace w')) = map fst vs"
    using batch_loss_logs_train [of "training ?w0" "inference ?w0" vs]
    by (simp add: batch_loss_logs_def)
  with l show "loss = mean (batch_loss_logs (drop (length (trace w)) (trace w')))" by simp
qed

lemmas toy_run = val_batch_def val_body_def train_batch_def train_body_def test_batch_def
  test_step_body_def toy_eval gs_eval toy_world_def power2_eq_square

lemma toy_val_batches:
  "run_batches (val_batch toy_ext) [batch_a, batch_b]
     (emit Inference_enter ((emit Model_eval (toy_world\<lparr>training := False\<rparr>))\<lparr>inference := True\<rparr>)) =
   Inr ([(29 / 5, 1 / 2), (0, 1)],
        toy_world\<lparr>inference := True, drawn := 2,
          trace := [Model_eval, Inference_enter, Forward False True, Forward False True]\<rparr>)"
  by (simp add: toy_run)

lemma toy_train_batches:
  "run_batches (train_batch toy_ext) [batch_a, batch_b] (emit Model_train (toy_world\<lparr>training := True\<rparr>)) =
   Inr ([(29 / 5, 1 / 2), (1 / 3, 1)],
        toy_world\<lparr>params := 2, optim := 2, training := True, drawn := 2,
          trace := [Model_train,
            Forward True False, Zero_grad, Backward, Optimizer_step, Wandb_log [(''batch train loss'', 29 / 5)],
            Forward True False, Zero_grad, Backward, Optimizer_step, Wandb_log [(''batch train loss'', 1 / 3)]]\<rparr>)"
  by (simp add: toy_run)

theorem epoch_means_are_batch_means_witness:
  "[batch_a, batch_b] \<noteq> [] \<and>
   val_step toy_ext [batch_a, batch_b] toy_world =
     Inr (29 / 10, 3 / 4,
       toy_world\<lparr>drawn := 2,
          trace := [Model_eval, Inference_enter, Forward False True, Forward False True, Inference_exit]\<rparr>) \<and>
   train_step toy_ext [batch_a, batch_b] toy_world =
     Inr (46 / 15, 3 / 4,
        toy_world\<lparr>params := 2, optim := 2, training := True, drawn := 2,
          trace := [Model_train,
            Forward True False, Zero_grad, Backward, Optimizer_step, Wandb_log [(''batch train loss'', 29 / 5)],
            Forward True False, Zero_grad, Backward, Optimizer_step, Wandb_log [(''batch train loss'', 1 / 3)]]\<rparr>) \<and>
   mean [29 / 5, 1 / 3] = 46 / 15 \<and> mean [1 / 2, 1] = 3 / 4 \<and>
   (5 * (1 / 2) + 2 * 1) / 7 \<noteq> (3 / 4 :: real) \<and>
   batch_scores toy_ext toy_world batch_a = Inr (29 / 5, 1 / 2)"
proof -
  have ne: "[batch_a, batch_b] \<noteq> []" by simp
  note t = epoch_means_are_batch_means [of "[batch_a, batch_b]" toy_ext toy_world]
  from t ne have "val_step toy_ext [batch_a, batch_b] toy_world =
        ebind (run_batches (val_batch toy_ext) [batch_a, batch_b]
           (emit Inference_enter ((emit Model_eval (toy_world\<lparr>training := False\<rparr>))\<lparr>inference := True\<rparr>)))
          (\<lambda>(vs, w'). Inr (mean (map fst vs), mean (map snd vs),
             emit Inference_exit (w'\<lparr>inference := inference toy_world\<rparr>)))"
    by blast
  then have v: "val_step toy_ext [batch_a, batch_b] toy_world =
     Inr (29 / 10, 3 / 4,
       toy_world\<lparr>drawn := 2,
          trace := [Model_eval, Inference_enter, Forward False True, Forward False True, Inference_exit]\<rparr>)"
    unfolding toy_val_batches by (simp add: mean_def emit_def toy_world_def)
  from t ne have "train_step toy_ext [batch_a, batch_b] toy_world =
        ebind (run_batches (train_batch toy_ext) [batch_a, batch_b] (emit Model_train (toy_world\<lparr>training := True\<rparr>)))
          (\<lambda>(vs, w'). Inr (mean (map fst vs), mean (map snd vs), w'))"
    by blast
  then have tr: "train_step toy_ext [batch_a, batch_b] toy_world =
     Inr (46 / 15, 3 / 4,
        toy_world\<lparr>params := 2, optim := 2, training := True, drawn := 2,
          trace := [Model_train,
            Forward True False, Zero_grad, Backward, Optimizer_step, Wandb_log [(''batch train loss'', 29 / 5)],
            Forward True False, Zero_grad, Backward, Optimizer_step, Wandb_log [(''batch train loss'', 1 / 3)]]\<rparr>)"
    unfolding toy_train_batches by (simp add: mean_def)
  have m: "mean [29 / 5, 1 / 3] = 46 / 15" "mean [1 / 2, 1] = 3 / 4" by (simp_all add: mean_def)
  have s: "batch_scores toy_ext toy_world batch_a = Inr (29 / 5, 1 / 2)"
    by (simp add: batch_scores_def toy_run)
  show ?thesis using ne v tr m s by simp
qed

subsection \<open>Test evaluation\<close>

lemma test_batch_labels:
  "test_batch ext w b =
     ebind (batch_labels ext w b)
       (\<lambda>v. Inr (v, emit (Forward (training w) (inference w)) (w\<lparr>drawn := Suc (drawn w)\<rparr>)))"
  unfolding test_batch_def test_step_body_def batch_labels_def
  by (simp add: ebind_def Let_def draw_def emit_def split: sum.splits)

lemma for_each_test:
  "for_each (test_step_body ext) xs (G, P, w) =
     ebind (run_batches (test_batch ext) xs w)
       (\<lambda>(vs, w'). Inr (G @ concat (map fst vs), P @ concat (map snd vs), w'))"
proof (induction xs arbitrary: G P w)
  case Nil
  show ?case by simp
next
  case (Cons x xs)
  show ?case
  proof (cases "test_step_body ext ([], [], w) x")
    case (Inl e)
    then have "test_batch ext w x = Inl e" "test_step_body ext (G, P, w) x = Inl e"
      by (simp_all add: test_step_body_shift [of ext G P] test_batch_def)
    then show ?thesis by simp
  next
    case (Inr r)
    obtain g p w1 where r: "r = (g, p, w1)" by (cases r) auto
    have "test_batch ext w x = Inr ((g, p), w1)" "test_step_body ext (G, P, w) x = Inr (G @ g, P @ p, w1)"
      by (simp_all add: test_step_body_shift [of ext G P] test_batch_def Inr r)
    then show ?thesis
      by (cases "run_batches (test_batch ext) xs w1") (auto simp: Cons.IH)
  qed
qed

lemma test_step_eq:
  "test_step ext dataloader w =
     ebind (run_batches (test_batch ext) dataloader (emit Inference_enter (w\<lparr>inference := True\<rparr>)))
       (\<lambda>(vs, w'). ebind (f1_score ext (concat (map fst vs)) (concat (map snd vs)))
          (\<lambda>test_acc. Inr (test_acc, emit Inference_exit (w'\<lparr>inference := inference w\<rparr>))))"
  by (cases "run_batches (test_batch ext) dataloader (emit Inference_enter (w\<lparr>inference := True\<rparr>))")
    (auto simp: test_step_def for_each_test Let_def emit_def)

lemma test_for_eval_eq:
  "test_for_eval ext dataloader w =
     ebind (run_batches (test_batch ext) dataloader (emit Inference_enter (w\<lparr>inference := True\<rparr>)))
       (\<lambda>(vs, w'). ebind (f1_score ext (concat (map fst vs)) (concat (map snd vs)))
          (\<lambda>test_acc. Inr ((test_acc, concat (map fst vs), concat (map snd vs)),
             emit Inference_exit (w'\<lparr>inference := inference w\<rparr>))))"
  by (cases "run_batches (test_batch ext) dataloader (emit Inference_enter (w\<lparr>inference := True\<rparr>))")
    (auto simp: test_for_eval_def test_for_eval_body_eq for_each_test Let_def emit_def)

lemma toy_test_batches:
  "run_batches (test_batch toy_ext) [batch_a, batch_b]
     (emit Inference_enter (toy_world\<lparr>params := 1, inference := True\<rparr>)) =
   Inr ([([0, 0, 0, 1, 1], [0, 1, 2, 1, 2]), ([2, 1], [2, 1])],
        toy_world\<lparr>params := 1, inference := True, drawn := 2,
          trace := [Inference_enter, Forward False True, Forward False True]\<rparr>)"
  by (simp add: toy_run)

lemma toy_f1:
  "weighted_f1 [0, 0, 0, 1, 1, 2, 1] [0, 1, 2, 1, 2, 2, 1] = Inr (4 / 7)"
  "weighted_f1 [0, 0, 0, 1, 1] [0, 1, 2, 1, 2] = Inr (1 / 2)"
  "weighted_f1 [2, 1] [2, 1] = Inr 1"
  by (simp_all add: weighted_f1_def class_f1_def)

text \<open>
  Claim C7: the test evaluation calls the F1 score once, on the gold and predicted labels of
  all batches concatenated in order, and returns that value - not a mean of per-batch scores.
\<close>

theorem test_step_aggregate_f1:
  "test_step ext dataloader w =
     ebind (run_batches (test_batch ext) dataloader (emit Inference_enter (w\<lparr>inference := True\<rparr>)))
       (\<lambda>(vs, w'). ebind (f1_score ext (concat (map fst vs)) (concat (map snd vs)))
          (\<lambda>test_acc. Inr (test_acc, emit Inference_exit (w'\<lparr>inference := inference w\<rparr>)))) \<and>
   test_batch ext w0 b =
     ebind (batch_labels ext w0 b)
       (\<lambda>v. Inr (v, emit (Forward (training w0) (inference w0)) (w0\<lparr>drawn := Suc (drawn w0)\<rparr>)))"
  using test_step_eq [of ext dataloader w] test_batch_labels [of ext w0 b] by (rule conjI)

theorem test_step_aggregate_f1_witness:
  "test_step toy_ext [batch_a, batch_b] (toy_world\<lparr>params := 1\<rparr>) =
     Inr (4 / 7, toy_world\<lparr>params := 1, drawn := 2,
        trace := [Inference_enter, Forward False True, Forward False True, Inference_exit]\<rparr>) \<and>
   weighted_f1 ([0, 0, 0, 1, 1] @ [2, 1]) ([0, 1, 2, 1, 2] @ [2, 1]) = Inr (4 / 7) \<and>
   weighted_f1 [0, 0, 0, 1, 1] [0, 1, 2, 1, 2] = Inr (1 / 2) \<and>
   weighted_f1 [2, 1] [2, 1] = Inr 1 \<and>
   mean [1 / 2, 1] \<noteq> 4 / 7 \<and>
   batch_labels toy_ext (toy_world\<lparr>params := 1\<rparr>) batch_b = Inr ([2, 1], [2, 1])"
proof -
  from test_step_aggregate_f1 [of toy_ext "[batch_a, batch_b]" "toy_world\<lparr>params := 1\<rparr>"]
  have "test_step toy_ext [batch_a, batch_b] (toy_world\<lparr>params := 1\<rparr>) =
     ebind (run_batches (test_batch toy_ext) [batch_a, batch_b]
        (emit Inference_enter (toy_world\<lparr>params := 1, inference := True\<rparr>)))
       (\<lambda>(vs, w'). ebind (f1_score toy_ext (concat (map fst vs)) (concat (map snd vs)))
          (\<lambda>test_acc. Inr (test_acc, emit Inference_exit (w'\<lparr>inference := inference (toy_world\<lparr>params := 1\<rparr>)\<rparr>))))"
    by simp
  then have 1: "test_step toy_ext [batch_a, batch_b] (toy_world\<lparr>params := 1\<rparr>) =
     Inr (4 / 7, toy_world\<lparr>params := 1, drawn := 2,
        trace := [Inference_enter, Forward False True, Forward False True, Inference_exit]\<rparr>)"
    unfolding toy_test_batches by (simp add: toy_sel toy_f1 emit_def toy_world_def)
  have 2: "mean [1 / 2, 1] \<noteq> 4 / 7" by (simp add: mean_def)
  have 3: "batch_labels toy_ext (toy_world\<lparr>params := 1\<rparr>) batch_b = Inr ([2, 1], [2, 1])"
    by (simp add: batch_labels_def toy_run)
  from 1 2 3 show ?thesis by (simp add: toy_f1)
qed

text \<open>
  Claim C8: \<open>test_for_eval\<close> runs the same loop as \<open>test_step\<close> and calls the F1 score on the
  same lists; it returns the score together with the gold and the predicted labels, where
  \<open>test_step\<close> returns the score alone. They raise together, and leave the same world.
\<close>

theorem test_variants_agree:
  "test_step ext dataloader w =
     ebind (test_for_eval ext dataloader w) (\<lambda>((test_acc, gold, pred), w'). Inr (test_acc, w')) \<and>
   for_each (test_for_eval_body ext) dataloader s = for_each (test_step_body ext) dataloader s \<and>
   (\<forall>test_acc gold pred w'.
      test_for_eval ext dataloader w = Inr ((test_acc, gold, pred), w') \<longrightarrow>
      test_step ext dataloader w = Inr (test_acc, w') \<and>
      f1_score ext gold pred = Inr test_acc \<and>
      (\<exists>w1. for_each (test_step_body ext) dataloader
              ([], [], emit Inference_enter (w\<lparr>inference := True\<rparr>)) = Inr (gold, pred, w1) \<and>
            w' = emit Inference_exit (w1\<lparr>inference := inference w\<rparr>)))"
proof (intro conjI allI impI)
  show "test_step ext dataloader w =
     ebind (test_for_eval ext dataloader w) (\<lambda>((test_acc, gold, pred), w'). Inr (test_acc, w'))"
    unfolding test_step_eq test_for_eval_eq
    by (simp add: ebind_def split: sum.splits)
next
  show "for_each (test_for_eval_body ext) dataloader s = for_each (test_step_body ext) dataloader s"
    by (simp add: test_for_eval_body_eq)
next
  fix test_acc gold pred w'
  assume a: "test_for_eval ext dataloader w = Inr ((test_acc, gold, pred), w')"
  then obtain vs w1 where
    rb: "run_batches (test_batch ext) dataloader (emit Inference_enter (w\<lparr>inference := True\<rparr>)) = Inr (vs, w1)"
    and f: "f1_score ext (concat (map fst vs)) (concat (map snd vs)) = Inr test_acc"
    and g: "gold = concat (map fst vs)" and p: "pred = concat (map snd vs)"
    and w': "w' = emit Inference_exit (w1\<lparr>inference := inference w\<rparr>)"
    unfolding test_for_eval_eq by (auto simp: ebind_eq_Inr)
  show "test_step ext dataloader w = Inr (test_acc, w')"
    unfolding test_step_eq by (simp add: rb f w')
  show "f1_score ext gold pred = Inr test_acc" using f g p by simp
  show "\<exists>w1. for_each (test_step_body ext) dataloader
              ([], [], emit Inference_enter (w\<lparr>inference := True\<rparr>)) = Inr (gold, pred, w1) \<and>
            w' = emit Inference_exit (w1\<lparr>inference := inference w\<rparr>)"
    by (simp add: for_each_test rb g p w')
qed

theorem test_variants_agree_witness:
  "test_for_eval toy_ext [batch_a, batch_b] (toy_world\<lparr>params := 1\<rparr>) =
     Inr ((4 / 7, [0, 0, 0, 1, 1, 2, 1], [0, 1, 2, 1, 2, 2, 1]),
        toy_world\<lparr>params := 1, drawn := 2,
          trace := [Inference_enter, Forward False True, Forward False True, Inference_exit]\<rparr>) \<and>
   test_step toy_ext [batch_a, batch_b] (toy_world\<lparr>params := 1\<rparr>) =
     Inr (4 / 7, toy_world\<lparr>params := 1, drawn := 2,
        trace := [Inference_enter, Forward False True, Forward False True, Inference_exit]\<rparr>) \<and>
   f1_score toy_ext [0, 0, 0, 1, 1, 2, 1] [0, 1, 2, 1, 2, 2, 1] = Inr (4 / 7)"
proof -
  have e: "test_for_eval toy_ext [batch_a, batch_b] (toy_world\<lparr>params := 1\<rparr>) =
     Inr ((4 / 7, [0, 0, 0, 1, 1, 2, 1], [0, 1, 2, 1, 2, 2, 1]),
        toy_world\<lparr>params := 1, drawn := 2,
          trace := [Inference_enter, Forward False True, Forward False True, Inference_exit]\<rparr>)"
    unfolding test_for_eval_eq
    using toy_test_batches by (simp add: toy_sel toy_f1 emit_def toy_world_def)
  from test_variants_agree [of toy_ext "[batch_a, batch_b]" "toy_world\<lparr>params := 1\<rparr>"] e
  have "test_step toy_ext [batch_a, batch_b] (toy_world\<lparr>params := 1\<rparr>) =
     Inr (4 / 7, toy_world\<lparr>params := 1, drawn := 2,
        trace := [Inference_enter, Forward False True, Forward False True, Inference_exit]\<rparr>)"
    and "f1_score toy_ext [0, 0, 0, 1, 1, 2, 1] [0, 1, 2, 1, 2, 2, 1] = Inr (4 / 7)"
    by blast+
  with e show ?thesis by blast
qed

subsection \<open>Validation step against train step\<close>

lemma val_batch_world:
  assumes "val_batch ext w b = Inr (v, w')"
  shows "w' = emit (Forward (training w) (inference w)) (w\<lparr>drawn := Suc (drawn w)\<rparr>)"
  using assms unfolding val_batch_scores by (auto simp: ebind_eq_Inr)

lemma run_batches_val_world:
  assumes "run_batches (val_batch ext) xs w = Inr (vs, w')"
  shows "w' = w\<lparr>drawn := drawn w + length xs,
              trace := trace w @ replicate (length xs) (Forward (training w) (inference w))\<rparr>"
  using assms
proof (induction xs arbitrary: w vs)
  case Nil
  then show ?case by simp
next
  case (Cons x xs)
  from Cons.prems obtain v w1 vs' where
    1: "val_batch ext w x = Inr (v, w1)" and 2: "run_batches (val_batch ext) xs w1 = Inr (vs', w')"
    by (auto simp: ebind_eq_Inr)
  note w1 = val_batch_world [OF 1]
  show ?case
    by (subst Cons.IH [OF 2]) (simp add: w1 emit_def)
qed

lemma val_step_world:
  assumes "val_step ext dataloader w = Inr (loss, f1, w')"
  shows "w' = w\<lparr>training := False, drawn := drawn w + length dataloader,
              trace := trace w @ [Model_eval, Inference_enter] @
                replicate (length dataloader) (Forward False True) @ [Inference_exit]\<rparr>"
proof -
  from assms have ne: "dataloader \<noteq> []" using step_empty(2) [of ext w] by auto
  from assms obtain vs w1 where
    rb: "run_batches (val_batch ext) dataloader
        (emit Inference_enter ((emit Model_eval (w\<lparr>training := False\<rparr>))\<lparr>inference := True\<rparr>)) = Inr (vs, w1)"
    and w': "w' = emit Inference_exit (w1\<lparr>inference := inference w\<rparr>)"
    unfolding val_step_mean [OF ne] by (auto simp: ebind_eq_Inr)
  show ?thesis
    unfolding w' run_batches_val_world [OF rb] by (simp add: emit_def)
qed

lemma run_batches_train_step_world:
  assumes rb: "run_batches (train_batch ext) dataloader (emit Model_train (w\<lparr>training := True\<rparr>)) = Inr (vs, w')"
  shows "training w' = True" "inference w' = inference w"
    "trace w' = trace w @ Model_train #
       concat (map (\<lambda>v. [Forward True (inference w), Zero_grad, Backward, Optimizer_step,
                         Wandb_log [(''batch train loss'', fst v)]]) vs)"
  using run_batches_train_world [OF rb] by (simp_all add: emit_def)

lemma train_step_world:
  assumes "train_step ext dataloader w = Inr (loss, f1, w')"
  shows "\<exists>vs :: (real \<times> real) list. length vs = length dataloader \<and> training w' = True \<and> inference w' = inference w \<and>
     trace w' = trace w @ Model_train #
       concat (map (\<lambda>v. [Forward True (inference w), Zero_grad, Backward, Optimizer_step,
                         Wandb_log [(''batch train loss'', fst v)]]) vs)"
proof -
  from assms have ne: "dataloader \<noteq> []" using step_empty(1) [of ext w] by auto
  from assms obtain vs where
    rb: "run_batches (train_batch ext) dataloader (emit Model_train (w\<lparr>training := True\<rparr>)) = Inr (vs, w')"
    unfolding train_step_mean [OF ne] by (auto simp: ebind_eq_Inr)
  show ?thesis
  proof (intro exI conjI)
    show "length vs = length dataloader" by (rule run_batches_length [OF rb])
    show "training w' = True" "inference w' = inference w"
      by (rule run_batches_train_step_world [OF rb])+
    show "trace w' = trace w @ Model_train #
       concat (map (\<lambda>v. [Forward True (inference w), Zero_grad, Backward, Optimizer_step,
                         Wandb_log [(''batch train loss'', fst v)]]) vs)"
      by (rule run_batches_train_step_world [OF rb])
  qed
qed





subsection \<open>The epoch loop\<close>

lemma train_epoch_cases:
  assumes "train_epoch ext tdl vdl patience st epoch = Inr fl"
  obtains (stop) tloss tf1 w1 vloss vf1 w2 where
      "train_step ext tdl (wld st) = Inr (tloss, tf1, w1)" "val_step ext vdl w1 = Inr (vloss, vf1, w2)"
      "patience \<le> no_improv_epochs st + (if vf1 < prev_val_score st then 1 else 0)"
      "fl = Return (st\<lparr>wld := w2,
          no_improv_epochs := no_improv_epochs st + (if vf1 < prev_val_score st then 1 else 0),
          prev_val_score := vf1\<rparr>)"
  | (continue) tloss tf1 w1 vloss vf1 w2 where
      "train_step ext tdl (wld st) = Inr (tloss, tf1, w1)" "val_step ext vdl w1 = Inr (vloss, vf1, w2)"
      "no_improv_epochs st + (if vf1 < prev_val_score st then 1 else 0) < patience"
      "fl = Next (st\<lparr>
          no_improv_epochs := no_improv_epochs st + (if vf1 < prev_val_score st then 1 else 0),
          prev_val_score := vf1,
          train_losses := train_losses st @ [tloss], train_fscores := train_fscores st @ [tf1],
          val_losses := val_losses st @ [vloss], val_fscores := val_fscores st @ [vf1],
          wld := emit (Wandb_log [(''train loss'', tloss), (''val loss'', vloss), (''train F1'', tf1),
                  (''val F1'', vf1), (''epoch'', real_of_int epoch)]) w2\<rparr>)"
proof -
  from assms obtain tloss tf1 w1 vloss vf1 w2 where
    t: "train_step ext tdl (wld st) = Inr (tloss, tf1, w1)" and v: "val_step ext vdl w1 = Inr (vloss, vf1, w2)"
    unfolding train_epoch_def by (auto simp: ebind_eq_Inr)
  show thesis
  proof (cases "patience \<le> no_improv_epochs st + (if vf1 < prev_val_score st then 1 else 0)")
    case True
    with assms t v show thesis
      by (intro stop [OF t v True]) (auto simp: train_epoch_def Let_def split: if_splits)
  next
    case False
    then have lt: "no_improv_epochs st + (if vf1 < prev_val_score st then 1 else 0) < patience" by simp
    with assms t v show thesis
      by (intro continue [OF t v lt]) (auto simp: train_epoch_def Let_def split: if_splits)
  qed
qed

lemma count_batch_events:
  "count_list (concat (map (\<lambda>v. [Forward a b, Zero_grad, Backward, Optimizer_step,
      Wandb_log [(''batch train loss'', fst v)]]) vs)) Model_train = 0"
  "filter is_epoch_log (concat (map (\<lambda>v. [Forward a b, Zero_grad, Backward, Optimizer_step,
      Wandb_log [(''batch train loss'', fst v)]]) vs)) = []"
  by (induction vs) simp_all

lemma count_forward_events:
  "count_list (replicate n (Forward a b)) Model_train = 0"
  "filter is_epoch_log (replicate n (Forward a b)) = []"
  by (induction n) simp_all

lemma epoch_steps_trace:
  assumes t: "train_step ext tdl w = Inr (tloss, tf1, w1)" and v: "val_step ext vdl w1 = Inr (vloss, vf1, w2)"
  shows "\<exists>d. trace w2 = trace w @ d \<and> epochs_begun d = 1 \<and> epoch_logs d = [] \<and>
           d \<noteq> [] \<and> last d = Inference_exit"
proof -
  from train_step_world [OF t] obtain vs :: "(real \<times> real) list" where
    1: "trace w1 = trace w @ Model_train #
       concat (map (\<lambda>v. [Forward True (inference w), Zero_grad, Backward, Optimizer_step,
                         Wandb_log [(''batch train loss'', fst v)]]) vs)"
    by blast
  let ?d1 = "Model_train # concat (map (\<lambda>v. [Forward True (inference w), Zero_grad, Backward,
      Optimizer_step, Wandb_log [(''batch train loss'', fst v)]]) vs)"
  let ?d2 = "[Model_eval, Inference_enter] @ replicate (length vdl) (Forward False True) @ [Inference_exit]"
  have 2: "trace w2 = trace w1 @ ?d2" by (subst val_step_world [OF v]) simp
  have "trace w2 = trace w @ (?d1 @ ?d2)" unfolding 2 1 by simp
  moreover have "epochs_begun (?d1 @ ?d2) = 1"
    by (simp add: epochs_begun_def count_batch_events count_forward_events)
  moreover have "epoch_logs (?d1 @ ?d2) = []"
    by (simp add: epoch_logs_def count_batch_events count_forward_events)
  moreover have "?d1 @ ?d2 \<noteq> []" "last (?d1 @ ?d2) = Inference_exit" by simp_all
  ultimately show ?thesis by blast
qed

lemma epochs_loop_Cons:
  assumes "epochs_loop (train_epoch ext tdl vdl patience) (e # es) st = Inr (status, st')"
  obtains (stop) tloss tf1 w1 vloss vf1 w2 where
      "train_step ext tdl (wld st) = Inr (tloss, tf1, w1)" "val_step ext vdl w1 = Inr (vloss, vf1, w2)"
      "patience \<le> no_improv_epochs st + (if vf1 < prev_val_score st then 1 else 0)"
      "status = STOPPED"
      "st' = st\<lparr>wld := w2,
          no_improv_epochs := no_improv_epochs st + (if vf1 < prev_val_score st then 1 else 0),
          prev_val_score := vf1\<rparr>"
  | (continue) tloss tf1 w1 vloss vf1 w2 st1 where
      "train_step ext tdl (wld st) = Inr (tloss, tf1, w1)" "val_step ext vdl w1 = Inr (vloss, vf1, w2)"
      "no_improv_epochs st + (if vf1 < prev_val_score st then 1 else 0) < patience"
      "st1 = st\<lparr>
          no_improv_epochs := no_improv_epochs st + (if vf1 < prev_val_score st then 1 else 0),
          prev_val_score := vf1,
          train_losses := train_losses st @ [tloss], train_fscores := train_fscores st @ [tf1],
          val_losses := val_losses st @ [vloss], val_fscores := val_fscores st @ [vf1],
          wld := emit (Wandb_log [(''train loss'', tloss), (''val loss'', vloss), (''train F1'', tf1),
                  (''val F1'', vf1), (''epoch'', real_of_int e)]) w2\<rparr>"
      "epochs_loop (train_epoch ext tdl vdl patience) es st1 = Inr (status, st')"
proof -
  from assms obtain fl where fl: "train_epoch ext tdl vdl patience st e = Inr fl"
    and rest: "(case fl of Return st' \<Rightarrow> Inr (STOPPED, st')
                | Next st1 \<Rightarrow> epochs_loop (train_epoch ext tdl vdl patience) es st1) = Inr (status, st')"
    by (auto simp: ebind_eq_Inr)
  from fl show thesis
  proof (cases rule: train_epoch_cases)
    case (stop tloss tf1 w1 vloss vf1 w2)
    with rest show thesis by (intro that(1) [OF stop(1,2,3)]) simp_all
  next
    case (continue tloss tf1 w1 vloss vf1 w2)
    with rest show thesis by (intro that(2) [OF continue(1,2,3) refl]) simp
  qed
qed

lemma epochs_loop_scores:
  assumes "epochs_loop (train_epoch ext tdl vdl patience) es st = Inr (status, st')"
  shows "\<exists>new. val_scores_seen status st' = val_fscores st @ new \<and>
     no_improv_epochs st' = no_improv_epochs st + descents (prev_val_score st) new \<and>
     (\<forall>k. 0 < k \<and> k < length new \<longrightarrow>
        no_improv_epochs st + descents (prev_val_score st) (take k new) < patience) \<and>
     (status = STOPPED \<longrightarrow> new \<noteq> [] \<and> patience \<le> no_improv_epochs st' \<and> length new \<le> length es) \<and>
     (status = COMPLETED \<longrightarrow> length new = length es \<and> (new \<noteq> [] \<longrightarrow> no_improv_epochs st' < patience))"
  using assms
proof (induction es arbitrary: st)
  case Nil
  then show ?case by (intro exI [of _ "[]"]) (auto simp: val_scores_seen_def)
next
  case (Cons e es)
  from Cons.prems show ?case
  proof (cases rule: epochs_loop_Cons)
    case (stop tloss tf1 w1 vloss vf1 w2)
    then show ?thesis by (intro exI [of _ "[vf1]"]) (simp add: val_scores_seen_def)
  next
    case (continue tloss tf1 w1 vloss vf1 w2 st1)
    let ?c = "no_improv_epochs st + (if vf1 < prev_val_score st then 1 else 0)"
    have st1: "val_fscores st1 = val_fscores st @ [vf1]" "prev_val_score st1 = vf1"
      "no_improv_epochs st1 = ?c"
      by (simp_all add: continue(4))
    from Cons.IH [OF continue(5)] obtain new where new:
      "val_scores_seen status st' = val_fscores st1 @ new"
      "no_improv_epochs st' = no_improv_epochs st1 + descents (prev_val_score st1) new"
      "\<And>k. 0 < k \<Longrightarrow> k < length new \<Longrightarrow>
         no_improv_epochs st1 + descents (prev_val_score st1) (take k new) < patience"
      "status = STOPPED \<Longrightarrow> new \<noteq> [] \<and> patience \<le> no_improv_epochs st' \<and> length new \<le> length es"
      "status = COMPLETED \<Longrightarrow> length new = length es \<and> (new \<noteq> [] \<longrightarrow> no_improv_epochs st' < patience)"
      by blast
    have prefix: "no_improv_epochs st + descents (prev_val_score st) (take k (vf1 # new)) < patience"
      if "0 < k" "k < length (vf1 # new)" for k
    proof (cases k)
      case 0
      with that show ?thesis by simp
    next
      case (Suc j)
      show ?thesis
      proof (cases "j = 0")
        case True
        with Suc continue(3) show ?thesis by simp
      next
        case False
        with that Suc new(3) [of j] st1 show ?thesis by (simp add: add.assoc)
      qed
    qed
    show ?thesis
    proof (intro exI [of _ "vf1 # new"] conjI allI impI)
      show "val_scores_seen status st' = val_fscores st @ vf1 # new" using new(1) st1 by simp
      show "no_improv_epochs st' = no_improv_epochs st + descents (prev_val_score st) (vf1 # new)"
        using new(2) st1 by simp
      show "no_improv_epochs st + descents (prev_val_score st) (take k (vf1 # new)) < patience"
        if "0 < k \<and> k < length (vf1 # new)" for k using prefix that by blast
      show "vf1 # new \<noteq> []" if "status = STOPPED" by simp
      show "patience \<le> no_improv_epochs st'" if "status = STOPPED" using new(4) that by simp
      show "length (vf1 # new) \<le> length (e # es)" if "status = STOPPED" using new(4) that by simp
      show "length (vf1 # new) = length (e # es)" if "status = COMPLETED" using new(5) that by simp
      show "no_improv_epochs st' < patience" if "status = COMPLETED" "vf1 # new \<noteq> []"
      proof (cases "new = []")
        case True
        with new(2) st1 continue(3) show ?thesis by simp
      next
        case False
        with new(5) that show ?thesis by simp
      qed
    qed
  qed
qed

lemma epochs_begun_append [simp]: "epochs_begun (a @ b) = epochs_begun a + epochs_begun b"
  by (simp add: epochs_begun_def)

lemma epoch_logs_append [simp]: "epoch_logs (a @ b) = epoch_logs a @ epoch_logs b"
  by (simp add: epoch_logs_def)

lemma epochs_begun_Cons [simp]:
  "epochs_begun (x # xs) = (if x = Model_train then 1 else 0) + epochs_begun xs"
  "epochs_begun [] = 0"
  by (simp_all add: epochs_begun_def)

lemma epoch_logs_Cons [simp]:
  "epoch_logs (x # xs) = (if is_epoch_log x then x # epoch_logs xs else epoch_logs xs)"
  "epoch_logs [] = []"
  by (simp_all add: epoch_logs_def)

lemma epoch_log_event [simp]:
  "is_epoch_log (Wandb_log [(''train loss'', a), (''val loss'', b), (''train F1'', c),
      (''val F1'', d), (''epoch'', e)])"
  by simp

lemma epochs_loop_records:
  assumes "epochs_loop (train_epoch ext tdl vdl patience) es st = Inr (status, st')"
  shows "\<exists>n d. length (train_losses st') = length (train_losses st) + n \<and>
     length (train_fscores st') = length (train_fscores st) + n \<and>
     length (val_losses st') = length (val_losses st) + n \<and>
     length (val_fscores st') = length (val_fscores st) + n \<and>
     trace (wld st') = trace (wld st) @ d \<and>
     length (epoch_logs d) = n \<and>
     epochs_begun d = n + (if status = STOPPED then 1 else 0) \<and>
     (status = COMPLETED \<longrightarrow> n = length es \<and> (es \<noteq> [] \<longrightarrow> d \<noteq> [] \<and> is_epoch_log (last d))) \<and>
     (status = STOPPED \<longrightarrow> n < length es \<and> d \<noteq> [] \<and> last d = Inference_exit)"
  using assms
proof (induction es arbitrary: st)
  case Nil
  then show ?case by (intro exI [of _ 0] exI [of _ "[]"]) (simp add: epochs_begun_def epoch_logs_def)
next
  case (Cons e es)
  from Cons.prems show ?case
  proof (cases rule: epochs_loop_Cons)
    case (stop tloss tf1 w1 vloss vf1 w2)
    from epoch_steps_trace [OF stop(1,2)] obtain d where
      d: "trace w2 = trace (wld st) @ d" "epochs_begun d = 1" "epoch_logs d = []" "d \<noteq> []"
        "last d = Inference_exit"
      by blast
    show ?thesis
      by (intro exI [of _ 0] exI [of _ d]) (simp add: stop(4,5) d)
  next
    case (continue tloss tf1 w1 vloss vf1 w2 st1)
    let ?log = "Wandb_log [(''train loss'', tloss), (''val loss'', vloss), (''train F1'', tf1),
                  (''val F1'', vf1), (''epoch'', real_of_int e)]"
    from epoch_steps_trace [OF continue(1,2)] obtain d0 where
      d0: "trace w2 = trace (wld st) @ d0" "epochs_begun d0 = 1" "epoch_logs d0 = []"
      by blast
    have st1: "length (train_losses st1) = Suc (length (train_losses st))"
      "length (train_fscores st1) = Suc (length (train_fscores st))"
      "length (val_losses st1) = Suc (length (val_losses st))"
      "length (val_fscores st1) = Suc (length (val_fscores st))"
      "trace (wld st1) = trace (wld st) @ d0 @ [?log]"
      by (simp_all add: continue(4) emit_def d0(1))
    from Cons.IH [OF continue(5)] obtain n d where nd:
      "length (train_losses st') = length (train_losses st1) + n"
      "length (train_fscores st') = length (train_fscores st1) + n"
      "length (val_losses st') = length (val_losses st1) + n"
      "length (val_fscores st') = length (val_fscores st1) + n"
      "trace (wld st') = trace (wld st1) @ d"
      "length (epoch_logs d) = n"
      "epochs_begun d = n + (if status = STOPPED then 1 else 0)"
      "status = COMPLETED \<Longrightarrow> n = length es \<and> (es \<noteq> [] \<longrightarrow> d \<noteq> [] \<and> is_epoch_log (last d))"
      "status = STOPPED \<Longrightarrow> n < length es \<and> d \<noteq> [] \<and> last d = Inference_exit"
      by blast
    have log1: "epoch_logs [?log] = [?log]" "epochs_begun [?log] = 0"
      by (simp_all add: epoch_logs_def epochs_begun_def)
    have lastd: "d \<noteq> [] \<and> is_epoch_log (last d)" if "status = COMPLETED" "es \<noteq> []"
      using nd(8) that by simp
    have dnil: "d = []" if "status = COMPLETED" "es = []"
    proof -
      from that nd(8) have "n = 0" by simp
      with nd(6,7) that(1) continue(5) that(2) nd(5) show ?thesis by simp
    qed
    show ?thesis
    proof (intro exI [of _ "Suc n"] exI [of _ "d0 @ [?log] @ d"] conjI impI)
      show "length (train_losses st') = length (train_losses st) + Suc n" using nd(1) st1 by simp
      show "length (train_fscores st') = length (train_fscores st) + Suc n" using nd(2) st1 by simp
      show "length (val_losses st') = length (val_losses st) + Suc n" using nd(3) st1 by simp
      show "length (val_fscores st') = length (val_fscores st) + Suc n" using nd(4) st1 by simp
      show "trace (wld st') = trace (wld st) @ d0 @ [?log] @ d" using nd(5) st1 by simp
      show "length (epoch_logs (d0 @ [?log] @ d)) = Suc n"
        using nd(6) d0(3) log1 by simp
      show "epochs_begun (d0 @ [?log] @ d) = Suc n + (if status = STOPPED then 1 else 0)"
        using nd(7) d0(2) log1 by simp
      show "Suc n = length (e # es)" if "status = COMPLETED" using nd(8) that by simp
      show "d0 @ [?log] @ d \<noteq> []" if "status = COMPLETED" "e # es \<noteq> []" by simp
      show "is_epoch_log (last (d0 @ [?log] @ d))" if "status = COMPLETED" "e # es \<noteq> []"
      proof (cases "es = []")
        case True
        with dnil that show ?thesis by simp
      next
        case False
        with lastd that show ?thesis by simp
      qed
      show "Suc n < length (e # es)" if "status = STOPPED" using nd(9) that by simp
      show "d0 @ [?log] @ d \<noteq> []" if "status = STOPPED" by simp
      show "last (d0 @ [?log] @ d) = Inference_exit" if "status = STOPPED" using nd(9) that by simp
    qed
  qed
qed

lemma length_py_range: "int (length (py_range n)) = max 0 n"
  by (simp add: py_range_def)

lemma py_range_2: "py_range 2 = [0, 1]"
  by (simp add: py_range_def upto_rec1)

lemma toy_train_run: "train toy_ext [batch_a] [batch_a] 2 1 toy_world = Inr (STOPPED, toy_final)"
  by (simp add: train_def py_range_2 init_state_def train_epoch_def train_step_def val_step_def
      train_body_def val_body_def toy_eval gs_eval toy_world_def power2_eq_square toy_final_def)

lemma train_epoch_counter:
  assumes "train_epoch ext tdl vdl patience st epoch = Inr fl"
  shows "\<exists>tloss tf1 w1 vloss vf1 w2 st1.
     train_step ext tdl (wld st) = Inr (tloss, tf1, w1) \<and>
     val_step ext vdl w1 = Inr (vloss, vf1, w2) \<and>
     (fl = Return st1 \<or> fl = Next st1) \<and>
     prev_val_score st1 = vf1 \<and>
     no_improv_epochs st1 = no_improv_epochs st + (if vf1 < prev_val_score st then 1 else 0) \<and>
     no_improv_epochs st \<le> no_improv_epochs st1 \<and>
     (fl = Return st1 \<longleftrightarrow> patience \<le> no_improv_epochs st1)"
  using assms
proof (cases rule: train_epoch_cases)
  case (stop tloss tf1 w1 vloss vf1 w2)
  show ?thesis
    apply (rule exI [of _ tloss], rule exI [of _ tf1], rule exI [of _ w1], rule exI [of _ vloss],
        rule exI [of _ vf1], rule exI [of _ w2])
    apply (rule exI [of _ "st\<lparr>wld := w2,
          no_improv_epochs := no_improv_epochs st + (if vf1 < prev_val_score st then 1 else 0),
          prev_val_score := vf1\<rparr>"])
    using stop by simp
next
  case (continue tloss tf1 w1 vloss vf1 w2)
  show ?thesis
    apply (rule exI [of _ tloss], rule exI [of _ tf1], rule exI [of _ w1], rule exI [of _ vloss],
        rule exI [of _ vf1], rule exI [of _ w2])
    apply (rule exI [of _ "st\<lparr>
          no_improv_epochs := no_improv_epochs st + (if vf1 < prev_val_score st then 1 else 0),
          prev_val_score := vf1,
          train_losses := train_losses st @ [tloss], train_fscores := train_fscores st @ [tf1],
          val_losses := val_losses st @ [vloss], val_fscores := val_fscores st @ [vf1],
          wld := emit (Wandb_log [(''train loss'', tloss), (''val loss'', vloss), (''train F1'', tf1),
                  (''val F1'', vf1), (''epoch'', real_of_int epoch)]) w2\<rparr>"])
    using continue by simp
qed

lemma train_run_scores:
  assumes "train ext tdl vdl epochs patience w = Inr (status, st)"
  shows "no_improv_epochs st = descents 0 (val_scores_seen status st)"
    and "\<And>k. 0 < k \<Longrightarrow> k < length (val_scores_seen status st) \<Longrightarrow>
          descents 0 (take k (val_scores_seen status st)) < patience"
    and "status = STOPPED \<Longrightarrow> val_scores_seen status st \<noteq> [] \<and>
          patience \<le> descents 0 (val_scores_seen status st) \<and>
          int (length (val_scores_seen status st)) \<le> epochs"
    and "status = COMPLETED \<Longrightarrow> int (length (val_scores_seen status st)) = max 0 epochs \<and>
          (val_scores_seen status st \<noteq> [] \<longrightarrow> descents 0 (val_scores_seen status st) < patience)"
proof -
  from assms have run: "epochs_loop (train_epoch ext tdl vdl patience) (py_range epochs) (init_state w) =
      Inr (status, st)"
    by (simp add: train_def)
  from epochs_loop_scores [OF run] obtain new where
    a: "val_scores_seen status st = val_fscores (init_state w) @ new" and
    b: "no_improv_epochs st = no_improv_epochs (init_state w) + descents (prev_val_score (init_state w)) new" and
    c: "\<forall>k. 0 < k \<and> k < length new \<longrightarrow>
        no_improv_epochs (init_state w) + descents (prev_val_score (init_state w)) (take k new) < patience" and
    d: "status = STOPPED \<longrightarrow> new \<noteq> [] \<and> patience \<le> no_improv_epochs st \<and> length new \<le> length (py_range epochs)" and
    e: "status = COMPLETED \<longrightarrow> length new = length (py_range epochs) \<and> (new \<noteq> [] \<longrightarrow> no_improv_epochs st < patience)"
    by blast
  have new: "val_scores_seen status st = new"
    "no_improv_epochs st = descents 0 new"
    "\<And>k. 0 < k \<Longrightarrow> k < length new \<Longrightarrow> descents 0 (take k new) < patience"
    "status = STOPPED \<Longrightarrow> new \<noteq> [] \<and> patience \<le> no_improv_epochs st \<and> length new \<le> length (py_range epochs)"
    "status = COMPLETED \<Longrightarrow> length new = length (py_range epochs) \<and> (new \<noteq> [] \<longrightarrow> no_improv_epochs st < patience)"
    using a b c d e by (simp_all add: init_state_def)
  show "no_improv_epochs st = descents 0 (val_scores_seen status st)" using new(1,2) by simp
  show "descents 0 (take k (val_scores_seen status st)) < patience"
    if "0 < k" "k < length (val_scores_seen status st)" for k
    using new(3) [of k] that new(1) by simp
  show "val_scores_seen status st \<noteq> [] \<and> patience \<le> descents 0 (val_scores_seen status st) \<and>
          int (length (val_scores_seen status st)) \<le> epochs" if "status = STOPPED"
  proof -
    from new(4) [OF that] have n: "new \<noteq> []" "patience \<le> no_improv_epochs st"
      "length new \<le> length (py_range epochs)" by simp_all
    from n(1) have "0 < length new" by simp
    with n(3) length_py_range [of epochs] have "int (length new) \<le> epochs" by linarith
    with n new(1,2) show ?thesis by simp
  qed
  show "int (length (val_scores_seen status st)) = max 0 epochs \<and>
          (val_scores_seen status st \<noteq> [] \<longrightarrow> descents 0 (val_scores_seen status st) < patience)"
    if "status = COMPLETED"
    using new(5) [OF that] new(1,2) length_py_range [of epochs] by auto
qed

lemma train_run_records:
  assumes "train ext tdl vdl epochs patience w = Inr (status, st)"
  shows "\<exists>n d. length (train_losses st) = n \<and> length (train_fscores st) = n \<and>
     length (val_losses st) = n \<and> length (val_fscores st) = n \<and>
     trace (wld st) = trace w @ Model_to_device # d \<and>
     length (epoch_logs d) = n \<and>
     epochs_begun d = n + (if status = STOPPED then 1 else 0) \<and>
     (status = COMPLETED \<longrightarrow> int n = max 0 epochs \<and> (0 < epochs \<longrightarrow> d \<noteq> [] \<and> is_epoch_log (last d))) \<and>
     (status = STOPPED \<longrightarrow> int n < epochs \<and> d \<noteq> [] \<and> last d = Inference_exit)"
proof -
  from assms have run: "epochs_loop (train_epoch ext tdl vdl patience) (py_range epochs) (init_state w) =
      Inr (status, st)"
    by (simp add: train_def)
  have ne: "py_range epochs \<noteq> []" if "0 < epochs"
    using length_py_range [of epochs] that by auto
  from epochs_loop_records [OF run] obtain n d where
    a: "length (train_losses st) = length (train_losses (init_state w)) + n"
      "length (train_fscores st) = length (train_fscores (init_state w)) + n"
      "length (val_losses st) = length (val_losses (init_state w)) + n"
      "length (val_fscores st) = length (val_fscores (init_state w)) + n"
      "trace (wld st) = trace (wld (init_state w)) @ d"
    and nd6: "length (epoch_logs d) = n"
      "epochs_begun d = n + (if status = STOPPED then 1 else 0)"
      "status = COMPLETED \<longrightarrow> n = length (py_range epochs) \<and> (py_range epochs \<noteq> [] \<longrightarrow> d \<noteq> [] \<and> is_epoch_log (last d))"
      "status = STOPPED \<longrightarrow> n < length (py_range epochs) \<and> d \<noteq> [] \<and> last d = Inference_exit"
    by blast
  have nd: "length (train_losses st) = n" "length (train_fscores st) = n"
    "length (val_losses st) = n" "length (val_fscores st) = n"
    "trace (wld st) = trace w @ Model_to_device # d"
    "length (epoch_logs d) = n"
    "epochs_begun d = n + (if status = STOPPED then 1 else 0)"
    "status = COMPLETED \<longrightarrow> n = length (py_range epochs) \<and> (py_range epochs \<noteq> [] \<longrightarrow> d \<noteq> [] \<and> is_epoch_log (last d))"
    "status = STOPPED \<longrightarrow> n < length (py_range epochs) \<and> d \<noteq> [] \<and> last d = Inference_exit"
    using a nd6 by (simp_all add: init_state_def emit_def)
  show ?thesis
  proof (intro exI [of _ n] exI [of _ d] conjI impI)
    show "int n = max 0 epochs" if "status = COMPLETED"
      using nd(8) that length_py_range [of epochs] by simp
    show "d \<noteq> []" "is_epoch_log (last d)" if "status = COMPLETED" "0 < epochs"
      using nd(8) that ne by simp_all
    show "int n < epochs" if "status = STOPPED"
      using nd(9) that length_py_range [of epochs] by auto
    show "d \<noteq> []" "last d = Inference_exit" if "status = STOPPED" using nd(9) that by simp_all
  qed (rule nd)+
qed

subsection \<open>A run as a sequence of epochs\<close>

lemma train_epoch_metrics:
  "train_epoch ext tdl vdl patience st epoch =
     ebind (epoch_metrics ext tdl vdl (wld st)) (\<lambda>(m, w).
       if patience \<le> no_improv_epochs st + (if m_val_f1 m < prev_val_score st then 1 else 0)
       then Inr (Return (st\<lparr>wld := w,
          no_improv_epochs := no_improv_epochs st + (if m_val_f1 m < prev_val_score st then 1 else 0),
          prev_val_score := m_val_f1 m\<rparr>))
       else Inr (Next (st\<lparr>
          no_improv_epochs := no_improv_epochs st + (if m_val_f1 m < prev_val_score st then 1 else 0),
          prev_val_score := m_val_f1 m,
          train_losses := train_losses st @ [m_train_loss m],
          train_fscores := train_fscores st @ [m_train_f1 m],
          val_losses := val_losses st @ [m_val_loss m],
          val_fscores := val_fscores st @ [m_val_f1 m],
          wld := emit (epoch_log m epoch) w\<rparr>)))"
proof (cases "train_step ext tdl (wld st)")
  case (Inl e)
  then show ?thesis by (simp add: train_epoch_def epoch_metrics_def)
next
  case (Inr r)
  obtain tloss tf1 w1 where r: "r = (tloss, tf1, w1)" by (cases r)
  show ?thesis
  proof (cases "val_step ext vdl w1")
    case (Inl e)
    with Inr r show ?thesis by (simp add: train_epoch_def epoch_metrics_def)
  next
    case (Inr r2)
    obtain vloss vf1 w2 where r2: "r2 = (vloss, vf1, w2)" by (cases r2)
    from \<open>train_step ext tdl (wld st) = Inr r\<close> Inr r r2 show ?thesis
      by (simp add: train_epoch_def epoch_metrics_def epoch_log_def Let_def)
  qed
qed

lemma epochs_loop_metrics:
  assumes "epochs_loop (train_epoch ext tdl vdl patience) es st = Inr (status, st')"
  shows "\<exists>ms w'. logged_epochs ext tdl vdl (take (length ms) es) (wld st) = Inr (ms, w') \<and>
     train_losses st' = train_losses st @ map m_train_loss ms \<and>
     train_fscores st' = train_fscores st @ map m_train_f1 ms \<and>
     val_losses st' = val_losses st @ map m_val_loss ms \<and>
     val_fscores st' = val_fscores st @ map m_val_f1 ms \<and>
     (status = COMPLETED \<longrightarrow> wld st' = w' \<and> length ms = length es) \<and>
     (status = STOPPED \<longrightarrow> length ms < length es \<and>
        (\<exists>m. epoch_metrics ext tdl vdl w' = Inr (m, wld st') \<and> prev_val_score st' = m_val_f1 m))"
  using assms
proof (induction es arbitrary: st)
  case Nil
  then have "status = COMPLETED" "st' = st" by simp_all
  then show ?case by (intro exI [of _ "[]"] exI [of _ "wld st"]) simp
next
  case (Cons e es)
  from Cons.prems obtain m w1 where m: "epoch_metrics ext tdl vdl (wld st) = Inr (m, w1)"
    unfolding epochs_loop.simps train_epoch_metrics by (auto simp: ebind_eq_Inr)
  let ?c = "no_improv_epochs st + (if m_val_f1 m < prev_val_score st then 1 else 0)"
  show ?case
  proof (cases "patience \<le> ?c")
    case True
    with Cons.prems m have "status = STOPPED"
      "st' = st\<lparr>wld := w1, no_improv_epochs := ?c, prev_val_score := m_val_f1 m\<rparr>"
      unfolding epochs_loop.simps train_epoch_metrics by simp_all
    with m show ?thesis by (intro exI [of _ "[]"] exI [of _ "wld st"]) simp
  next
    case False
    let ?st1 = "st\<lparr>no_improv_epochs := ?c, prev_val_score := m_val_f1 m,
          train_losses := train_losses st @ [m_train_loss m],
          train_fscores := train_fscores st @ [m_train_f1 m],
          val_losses := val_losses st @ [m_val_loss m],
          val_fscores := val_fscores st @ [m_val_f1 m],
          wld := emit (epoch_log m e) w1\<rparr>"
    from False Cons.prems m
    have "epochs_loop (train_epoch ext tdl vdl patience) es ?st1 = Inr (status, st')"
      unfolding epochs_loop.simps train_epoch_metrics by simp
    from Cons.IH [OF this] obtain ms w' where
      l: "logged_epochs ext tdl vdl (take (length ms) es) (emit (epoch_log m e) w1) = Inr (ms, w')"
      and r: "train_losses st' = train_losses st @ m_train_loss m # map m_train_loss ms"
        "train_fscores st' = train_fscores st @ m_train_f1 m # map m_train_f1 ms"
        "val_losses st' = val_losses st @ m_val_loss m # map m_val_loss ms"
        "val_fscores st' = val_fscores st @ m_val_f1 m # map m_val_f1 ms"
      and c: "status = COMPLETED \<longrightarrow> wld st' = w' \<and> length ms = length es"
      and s: "status = STOPPED \<longrightarrow> length ms < length es \<and>
        (\<exists>m. epoch_metrics ext tdl vdl w' = Inr (m, wld st') \<and> prev_val_score st' = m_val_f1 m)"
      by auto
    from m l have "logged_epochs ext tdl vdl (take (length (m # ms)) (e # es)) (wld st) =
        Inr (m # ms, w')" by simp
    with r c s show ?thesis by (intro exI [of _ "m # ms"] exI [of _ w']) simp
  qed
qed

lemma epochs_loop_stops:
  assumes "logged_epochs ext tdl vdl (take k es) (wld st) = Inr (ms, w')" and "k < length es"
    and "epoch_metrics ext tdl vdl w' = Inr (m, w'')"
    and "\<forall>j. 0 < j \<and> j \<le> k \<longrightarrow>
        no_improv_epochs st + descents (prev_val_score st) (take j (map m_val_f1 ms)) < patience"
    and "patience \<le> no_improv_epochs st + descents (prev_val_score st) (map m_val_f1 ms @ [m_val_f1 m])"
  shows "\<exists>st'. epochs_loop (train_epoch ext tdl vdl patience) es st = Inr (STOPPED, st') \<and>
     wld st' = w'' \<and> prev_val_score st' = m_val_f1 m \<and>
     no_improv_epochs st' =
       no_improv_epochs st + descents (prev_val_score st) (map m_val_f1 ms @ [m_val_f1 m]) \<and>
     train_losses st' = train_losses st @ map m_train_loss ms \<and>
     train_fscores st' = train_fscores st @ map m_train_f1 ms \<and>
     val_losses st' = val_losses st @ map m_val_loss ms \<and>
     val_fscores st' = val_fscores st @ map m_val_f1 ms"
  using assms
proof (induction k arbitrary: es st ms)
  case 0
  then obtain e rest where es: "es = e # rest" by (cases es) auto
  from 0 have ms: "ms = []" "w' = wld st" by simp_all
  from 0(3,5) show ?case unfolding es ms epochs_loop.simps train_epoch_metrics by simp
next
  case (Suc k)
  then obtain e rest where es: "es = e # rest" by (cases es) auto
  from Suc.prems(1) obtain m0 w1 ms0 where
    m0: "epoch_metrics ext tdl vdl (wld st) = Inr (m0, w1)"
    and l: "logged_epochs ext tdl vdl (take k rest) (emit (epoch_log m0 e) w1) = Inr (ms0, w')"
    and ms: "ms = m0 # ms0"
    unfolding es by (auto simp: ebind_eq_Inr)
  let ?c = "no_improv_epochs st + (if m_val_f1 m0 < prev_val_score st then 1 else 0)"
  let ?st1 = "st\<lparr>no_improv_epochs := ?c, prev_val_score := m_val_f1 m0,
          train_losses := train_losses st @ [m_train_loss m0],
          train_fscores := train_fscores st @ [m_train_f1 m0],
          val_losses := val_losses st @ [m_val_loss m0],
          val_fscores := val_fscores st @ [m_val_f1 m0],
          wld := emit (epoch_log m0 e) w1\<rparr>"
  from Suc.prems(4) [rule_format, of 1] have lt: "?c < patience" by (simp add: ms)
  have run: "epochs_loop (train_epoch ext tdl vdl patience) es st =
      epochs_loop (train_epoch ext tdl vdl patience) rest ?st1"
    unfolding es epochs_loop.simps train_epoch_metrics using m0 lt by simp
  have p1: "logged_epochs ext tdl vdl (take k rest) (wld ?st1) = Inr (ms0, w')" using l by simp
  have p2: "k < length rest" using Suc.prems(2) es by simp
  have p4: "\<forall>j. 0 < j \<and> j \<le> k \<longrightarrow> no_improv_epochs ?st1 +
      descents (prev_val_score ?st1) (take j (map m_val_f1 ms0)) < patience"
  proof (intro allI impI)
    fix j assume "0 < j \<and> j \<le> k"
    then have "0 < Suc j \<and> Suc j \<le> Suc k" by simp
    from Suc.prems(4) [rule_format, OF this] show "no_improv_epochs ?st1 +
      descents (prev_val_score ?st1) (take j (map m_val_f1 ms0)) < patience"
      by (simp add: ms)
  qed
  have p5: "patience \<le> no_improv_epochs ?st1 +
      descents (prev_val_score ?st1) (map m_val_f1 ms0 @ [m_val_f1 m])"
    using Suc.prems(5) by (simp add: ms)
  from Suc.IH [OF p1 p2 Suc.prems(3) p4 p5] obtain st' where
    "epochs_loop (train_epoch ext tdl vdl patience) rest ?st1 = Inr (STOPPED, st')"
    "wld st' = w''" "prev_val_score st' = m_val_f1 m"
    "no_improv_epochs st' = ?c + descents (m_val_f1 m0) (map m_val_f1 ms0 @ [m_val_f1 m])"
    "train_losses st' = train_losses st @ m_train_loss m0 # map m_train_loss ms0"
    "train_fscores st' = train_fscores st @ m_train_f1 m0 # map m_train_f1 ms0"
    "val_losses st' = val_losses st @ m_val_loss m0 # map m_val_loss ms0"
    "val_fscores st' = val_fscores st @ m_val_f1 m0 # map m_val_f1 ms0"
    by auto
  then show ?case unfolding run ms by (intro exI [of _ st']) simp
qed

lemma epochs_loop_completes:
  assumes "logged_epochs ext tdl vdl es (wld st) = Inr (ms, w')"
    and "\<forall>j. 0 < j \<and> j \<le> length es \<longrightarrow> no_improv_epochs st +
        descents (prev_val_score st) (take j (map m_val_f1 ms)) < patience"
  shows "\<exists>st'. epochs_loop (train_epoch ext tdl vdl patience) es st = Inr (COMPLETED, st') \<and>
     wld st' = w' \<and>
     no_improv_epochs st' = no_improv_epochs st + descents (prev_val_score st) (map m_val_f1 ms) \<and>
     train_losses st' = train_losses st @ map m_train_loss ms \<and>
     train_fscores st' = train_fscores st @ map m_train_f1 ms \<and>
     val_losses st' = val_losses st @ map m_val_loss ms \<and>
     val_fscores st' = val_fscores st @ map m_val_f1 ms"
  using assms
proof (induction es arbitrary: st ms)
  case Nil
  then show ?case by simp
next
  case (Cons e rest)
  from Cons.prems(1) obtain m0 w1 ms0 where
    m0: "epoch_metrics ext tdl vdl (wld st) = Inr (m0, w1)"
    and l: "logged_epochs ext tdl vdl rest (emit (epoch_log m0 e) w1) = Inr (ms0, w')"
    and ms: "ms = m0 # ms0"
    by (auto simp: ebind_eq_Inr)
  let ?c = "no_improv_epochs st + (if m_val_f1 m0 < prev_val_score st then 1 else 0)"
  let ?st1 = "st\<lparr>no_improv_epochs := ?c, prev_val_score := m_val_f1 m0,
          train_losses := train_losses st @ [m_train_loss m0],
          train_fscores := train_fscores st @ [m_train_f1 m0],
          val_losses := val_losses st @ [m_val_loss m0],
          val_fscores := val_fscores st @ [m_val_f1 m0],
          wld := emit (epoch_log m0 e) w1\<rparr>"
  from Cons.prems(2) [rule_format, of 1] have lt: "?c < patience" by (simp add: ms)
  have run: "epochs_loop (train_epoch ext tdl vdl patience) (e # rest) st =
      epochs_loop (train_epoch ext tdl vdl patience) rest ?st1"
    unfolding epochs_loop.simps train_epoch_metrics using m0 lt by simp
  have p1: "logged_epochs ext tdl vdl rest (wld ?st1) = Inr (ms0, w')" using l by simp
  have p2: "\<forall>j. 0 < j \<and> j \<le> length rest \<longrightarrow> no_improv_epochs ?st1 +
      descents (prev_val_score ?st1) (take j (map m_val_f1 ms0)) < patience"
  proof (intro allI impI)
    fix j assume "0 < j \<and> j \<le> length rest"
    then have "0 < Suc j \<and> Suc j \<le> length (e # rest)" by simp
    from Cons.prems(2) [rule_format, OF this] show "no_improv_epochs ?st1 +
      descents (prev_val_score ?st1) (take j (map m_val_f1 ms0)) < patience"
      by (simp add: ms)
  qed
  from Cons.IH [OF p1 p2] obtain st' where
    "epochs_loop (train_epoch ext tdl vdl patience) rest ?st1 = Inr (COMPLETED, st')"
    "wld st' = w'"
    "no_improv_epochs st' = ?c + descents (m_val_f1 m0) (map m_val_f1 ms0)"
    "train_losses st' = train_losses st @ m_train_loss m0 # map m_train_loss ms0"
    "train_fscores st' = train_fscores st @ m_train_f1 m0 # map m_train_f1 ms0"
    "val_losses st' = val_losses st @ m_val_loss m0 # map m_val_loss ms0"
    "val_fscores st' = val_fscores st @ m_val_f1 m0 # map m_val_f1 ms0"
    by auto
  then show ?case unfolding run ms by (intro exI [of _ st']) simp
qed

lemma train_run_metrics:
  assumes "train ext tdl vdl epochs patience w = Inr (status, st)"
  shows "\<exists>ms w'. logged_epochs ext tdl vdl (take (length ms) (py_range epochs))
        (emit Model_to_device w) = Inr (ms, w') \<and>
     train_losses st = map m_train_loss ms \<and> train_fscores st = map m_train_f1 ms \<and>
     val_losses st = map m_val_loss ms \<and> val_fscores st = map m_val_f1 ms \<and>
     (status = COMPLETED \<longrightarrow> wld st = w' \<and> int (length ms) = max 0 epochs) \<and>
     (status = STOPPED \<longrightarrow> int (length ms) < epochs \<and>
        (\<exists>m. epoch_metrics ext tdl vdl w' = Inr (m, wld st) \<and> prev_val_score st = m_val_f1 m \<and>
           val_scores_seen status st = map m_val_f1 ms @ [m_val_f1 m]))"
proof -
  from assms have run: "epochs_loop (train_epoch ext tdl vdl patience) (py_range epochs)
      (init_state w) = Inr (status, st)"
    by (simp add: train_def)
  from epochs_loop_metrics [OF run] obtain ms w' where
    l: "logged_epochs ext tdl vdl (take (length ms) (py_range epochs)) (wld (init_state w)) =
        Inr (ms, w')"
    and r: "train_losses st = train_losses (init_state w) @ map m_train_loss ms"
      "train_fscores st = train_fscores (init_state w) @ map m_train_f1 ms"
      "val_losses st = val_losses (init_state w) @ map m_val_loss ms"
      "val_fscores st = val_fscores (init_state w) @ map m_val_f1 ms"
    and c: "status = COMPLETED \<longrightarrow> wld st = w' \<and> length ms = length (py_range epochs)"
    and s: "status = STOPPED \<longrightarrow> length ms < length (py_range epochs) \<and>
        (\<exists>m. epoch_metrics ext tdl vdl w' = Inr (m, wld st) \<and> prev_val_score st = m_val_f1 m)"
    by blast
  from l have l': "logged_epochs ext tdl vdl (take (length ms) (py_range epochs))
      (emit Model_to_device w) = Inr (ms, w')" by (simp add: init_state_def)
  from r have r': "train_losses st = map m_train_loss ms" "train_fscores st = map m_train_f1 ms"
    "val_losses st = map m_val_loss ms" "val_fscores st = map m_val_f1 ms"
    by (simp_all add: init_state_def)
  from c have c': "status = COMPLETED \<longrightarrow> wld st = w' \<and> int (length ms) = max 0 epochs"
    using length_py_range [of epochs] by auto
  have s': "status = STOPPED \<longrightarrow> int (length ms) < epochs \<and>
        (\<exists>m. epoch_metrics ext tdl vdl w' = Inr (m, wld st) \<and> prev_val_score st = m_val_f1 m \<and>
           val_scores_seen status st = map m_val_f1 ms @ [m_val_f1 m])"
  proof
    assume st: "status = STOPPED"
    with s obtain m where lt: "length ms < length (py_range epochs)"
      and m: "epoch_metrics ext tdl vdl w' = Inr (m, wld st)" "prev_val_score st = m_val_f1 m"
      by blast
    from lt have "int (length ms) < epochs" using length_py_range [of epochs] by auto
    moreover have "val_scores_seen status st = map m_val_f1 ms @ [m_val_f1 m]"
      using st m(2) r'(4) by (simp add: val_scores_seen_def)
    ultimately show "int (length ms) < epochs \<and>
        (\<exists>m. epoch_metrics ext tdl vdl w' = Inr (m, wld st) \<and> prev_val_score st = m_val_f1 m \<and>
           val_scores_seen status st = map m_val_f1 ms @ [m_val_f1 m])"
      using m by blast
  qed
  from l' r' c' s' show ?thesis by blast
qed

lemma train_run_stops:
  assumes "int k < epochs"
    and "logged_epochs ext tdl vdl (take k (py_range epochs)) (emit Model_to_device w) = Inr (ms, w')"
    and "epoch_metrics ext tdl vdl w' = Inr (m, w'')"
    and "\<forall>j. 0 < j \<and> j \<le> k \<longrightarrow> descents 0 (take j (map m_val_f1 ms)) < patience"
    and "patience \<le> descents 0 (map m_val_f1 ms @ [m_val_f1 m])"
  shows "\<exists>st. train ext tdl vdl epochs patience w = Inr (STOPPED, st) \<and> wld st = w'' \<and>
     prev_val_score st = m_val_f1 m \<and>
     no_improv_epochs st = descents 0 (map m_val_f1 ms @ [m_val_f1 m]) \<and>
     train_losses st = map m_train_loss ms \<and> train_fscores st = map m_train_f1 ms \<and>
     val_losses st = map m_val_loss ms \<and> val_fscores st = map m_val_f1 ms"
proof -
  from assms(1) have k: "k < length (py_range epochs)" using length_py_range [of epochs] by auto
  have l: "logged_epochs ext tdl vdl (take k (py_range epochs)) (wld (init_state w)) = Inr (ms, w')"
    using assms(2) by (simp add: init_state_def)
  have p4: "\<forall>j. 0 < j \<and> j \<le> k \<longrightarrow> no_improv_epochs (init_state w) +
      descents (prev_val_score (init_state w)) (take j (map m_val_f1 ms)) < patience"
    using assms(4) by (simp add: init_state_def)
  have p5: "patience \<le> no_improv_epochs (init_state w) +
      descents (prev_val_score (init_state w)) (map m_val_f1 ms @ [m_val_f1 m])"
    using assms(5) by (simp add: init_state_def)
  from epochs_loop_stops [OF l k assms(3) p4 p5] show ?thesis
    by (simp add: train_def init_state_def)
qed

lemma train_run_completes:
  assumes "logged_epochs ext tdl vdl (py_range epochs) (emit Model_to_device w) = Inr (ms, w')"
    and "\<forall>j. 0 < j \<and> j \<le> length ms \<longrightarrow> descents 0 (take j (map m_val_f1 ms)) < patience"
  shows "\<exists>st. train ext tdl vdl epochs patience w = Inr (COMPLETED, st) \<and> wld st = w' \<and>
     no_improv_epochs st = descents 0 (map m_val_f1 ms) \<and>
     train_losses st = map m_train_loss ms \<and> train_fscores st = map m_train_f1 ms \<and>
     val_losses st = map m_val_loss ms \<and> val_fscores st = map m_val_f1 ms"
proof -
  have len: "length ms = length es" if "logged_epochs ext tdl vdl es v = Inr (ms, w')" for es v
    using that by (induction es arbitrary: v ms) (auto simp: ebind_eq_Inr)
  have l: "logged_epochs ext tdl vdl (py_range epochs) (wld (init_state w)) = Inr (ms, w')"
    using assms(1) by (simp add: init_state_def)
  have p: "\<forall>j. 0 < j \<and> j \<le> length (py_range epochs) \<longrightarrow> no_improv_epochs (init_state w) +
      descents (prev_val_score (init_state w)) (take j (map m_val_f1 ms)) < patience"
    using assms(2) len [OF assms(1)] by (simp add: init_state_def)
  from epochs_loop_completes [OF l p] show ?thesis
    by (simp add: train_def init_state_def)
qed

lemma train_two_epochs:
  assumes m1: "epoch_metrics ext tdl vdl (emit Model_to_device w) = Inr (m1, w1)"
    and v1: "m_val_f1 m1 = 1 / 2"
    and m2: "epoch_metrics ext tdl vdl (emit (epoch_log m1 0) w1) = Inr (m2, w2)"
    and v2: "m_val_f1 m2 = 3 / 10"
  shows "\<exists>st. train ext tdl vdl 2 1 w = Inr (STOPPED, st) \<and> wld st = w2 \<and>
     no_improv_epochs st = 1 \<and> prev_val_score st = 3 / 10 \<and>
     train_losses st = [m_train_loss m1] \<and> train_fscores st = [m_train_f1 m1] \<and>
     val_losses st = [m_val_loss m1] \<and> val_fscores st = [1 / 2]"
proof -
  have k: "int 1 < 2" by simp
  have l: "logged_epochs ext tdl vdl (take 1 (py_range 2)) (emit Model_to_device w) =
      Inr ([m1], emit (epoch_log m1 0) w1)"
    using m1 by (simp add: py_range_2)
  have p4: "\<forall>j. 0 < j \<and> j \<le> 1 \<longrightarrow> descents 0 (take j (map m_val_f1 [m1])) < (1::int)"
  proof (intro allI impI)
    fix j :: nat assume "0 < j \<and> j \<le> 1"
    then have "j = 1" by simp
    then show "descents 0 (take j (map m_val_f1 [m1])) < (1::int)" by (simp add: v1)
  qed
  have p5: "(1::int) \<le> descents 0 (map m_val_f1 [m1] @ [m_val_f1 m2])" by (simp add: v1 v2)
  from train_run_stops [OF k l m2 p4 p5] show ?thesis by (auto simp: v1 v2)
qed

text \<open>
  Claim C1: in every epoch the no-improvement counter goes up by exactly one when the
  epoch's validation F1 is strictly below the previous epoch's (0 before the first epoch)
  and stays as it is otherwise, so it never goes down; the epoch returns from \<open>train\<close>
  exactly when the counter has reached the patience. Over a run, the counter is the number
  of such descents in the validation scores seen, no earlier epoch had reached the patience,
  and the run stops early exactly at the first epoch that does. The scores a run has seen are
  those its epochs compute: the recorded metrics are the results of the train and validation
  steps of the epochs that did not stop, each run in the world the epoch before left, and
  after an early stop the previous score is the validation F1 of the stopping epoch.
  Conversely, when the steps of the epochs return, \<open>train\<close> stops early in the first epoch
  whose score brings the number of descents to the patience, and runs all epochs when none
  does. With two epochs, patience 1 and validation scores 0.5 and 0.3 the run stops in the
  second epoch, with the metrics of the first epoch recorded and no others, and nothing
  logged after the second validation step.
\<close>

theorem early_stop_counter:
  fixes ext :: "('p, 'o, 't) ext"
  shows
  "(\<forall>st epoch fl. train_epoch ext tdl vdl patience st epoch = Inr fl \<longrightarrow>
      (\<exists>tloss tf1 w1 vloss vf1 w2 st1.
         train_step ext tdl (wld st) = Inr (tloss, tf1, w1) \<and>
         val_step ext vdl w1 = Inr (vloss, vf1, w2) \<and>
         (fl = Return st1 \<or> fl = Next st1) \<and>
         prev_val_score st1 = vf1 \<and>
         no_improv_epochs st1 = no_improv_epochs st + (if vf1 < prev_val_score st then 1 else 0) \<and>
         no_improv_epochs st \<le> no_improv_epochs st1 \<and>
         (fl = Return st1 \<longleftrightarrow> patience \<le> no_improv_epochs st1))) \<and>
   (\<forall>status st. train ext tdl vdl epochs patience w = Inr (status, st) \<longrightarrow>
      no_improv_epochs st = descents 0 (val_scores_seen status st) \<and>
      (\<forall>k. 0 < k \<and> k < length (val_scores_seen status st) \<longrightarrow>
         descents 0 (take k (val_scores_seen status st)) < patience) \<and>
      (status = STOPPED \<longrightarrow> val_scores_seen status st \<noteq> [] \<and>
         patience \<le> descents 0 (val_scores_seen status st) \<and>
         int (length (val_scores_seen status st)) \<le> epochs) \<and>
      (status = COMPLETED \<longrightarrow> int (length (val_scores_seen status st)) = max 0 epochs \<and>
         (val_scores_seen status st \<noteq> [] \<longrightarrow> descents 0 (val_scores_seen status st) < patience)) \<and>
      (epochs = 2 \<and> patience = 1 \<and> val_scores_seen status st = [1 / 2, 3 / 10] \<longrightarrow>
         status = STOPPED \<and> val_fscores st = [1 / 2] \<and> length (train_losses st) = 1 \<and>
         length (train_fscores st) = 1 \<and> length (val_losses st) = 1)) \<and>
   (\<forall>status st. train ext tdl vdl epochs patience w = Inr (status, st) \<longrightarrow>
      (\<exists>ms w'. logged_epochs ext tdl vdl (take (length ms) (py_range epochs))
            (emit Model_to_device w) = Inr (ms, w') \<and>
         train_losses st = map m_train_loss ms \<and> train_fscores st = map m_train_f1 ms \<and>
         val_losses st = map m_val_loss ms \<and> val_fscores st = map m_val_f1 ms \<and>
         (status = COMPLETED \<longrightarrow> wld st = w' \<and> int (length ms) = max 0 epochs) \<and>
         (status = STOPPED \<longrightarrow> int (length ms) < epochs \<and>
            (\<exists>m. epoch_metrics ext tdl vdl w' = Inr (m, wld st) \<and>
               prev_val_score st = m_val_f1 m \<and>
               val_scores_seen status st = map m_val_f1 ms @ [m_val_f1 m])))) \<and>
   (\<forall>k ms w' m w''. int k < epochs \<and>
        logged_epochs ext tdl vdl (take k (py_range epochs)) (emit Model_to_device w) =
          Inr (ms, w') \<and>
        epoch_metrics ext tdl vdl w' = Inr (m, w'') \<and>
        (\<forall>j. 0 < j \<and> j \<le> k \<longrightarrow> descents 0 (take j (map m_val_f1 ms)) < patience) \<and>
        patience \<le> descents 0 (map m_val_f1 ms @ [m_val_f1 m]) \<longrightarrow>
      (\<exists>st. train ext tdl vdl epochs patience w = Inr (STOPPED, st) \<and> wld st = w'' \<and>
         prev_val_score st = m_val_f1 m \<and>
         no_improv_epochs st = descents 0 (map m_val_f1 ms @ [m_val_f1 m]) \<and>
         train_losses st = map m_train_loss ms \<and> train_fscores st = map m_train_f1 ms \<and>
         val_losses st = map m_val_loss ms \<and> val_fscores st = map m_val_f1 ms)) \<and>
   (\<forall>ms w'. logged_epochs ext tdl vdl (py_range epochs) (emit Model_to_device w) =
          Inr (ms, w') \<and>
        (\<forall>j. 0 < j \<and> j \<le> length ms \<longrightarrow> descents 0 (take j (map m_val_f1 ms)) < patience) \<longrightarrow>
      (\<exists>st. train ext tdl vdl epochs patience w = Inr (COMPLETED, st) \<and> wld st = w' \<and>
         no_improv_epochs st = descents 0 (map m_val_f1 ms) \<and>
         train_losses st = map m_train_loss ms \<and> train_fscores st = map m_train_f1 ms \<and>
         val_losses st = map m_val_loss ms \<and> val_fscores st = map m_val_f1 ms)) \<and>
   (\<forall>m1 w1 m2 w2. epoch_metrics ext tdl vdl (emit Model_to_device w) = Inr (m1, w1) \<and>
        m_val_f1 m1 = 1 / 2 \<and>
        epoch_metrics ext tdl vdl (emit (epoch_log m1 0) w1) = Inr (m2, w2) \<and>
        m_val_f1 m2 = 3 / 10 \<longrightarrow>
      (\<exists>st. train ext tdl vdl 2 1 w = Inr (STOPPED, st) \<and> wld st = w2 \<and>
         no_improv_epochs st = 1 \<and> prev_val_score st = 3 / 10 \<and>
         train_losses st = [m_train_loss m1] \<and> train_fscores st = [m_train_f1 m1] \<and>
         val_losses st = [m_val_loss m1] \<and> val_fscores st = [1 / 2]))"
proof (intro conjI allI impI)
  fix st :: "('p, 'o) run_state" and epoch fl
  assume "train_epoch ext tdl vdl patience st epoch = Inr fl"
  then show "\<exists>tloss tf1 w1 vloss vf1 w2 st1.
         train_step ext tdl (wld st) = Inr (tloss, tf1, w1) \<and>
         val_step ext vdl w1 = Inr (vloss, vf1, w2) \<and>
         (fl = Return st1 \<or> fl = Next st1) \<and>
         prev_val_score st1 = vf1 \<and>
         no_improv_epochs st1 = no_improv_epochs st + (if vf1 < prev_val_score st then 1 else 0) \<and>
         no_improv_epochs st \<le> no_improv_epochs st1 \<and>
         (fl = Return st1 \<longleftrightarrow> patience \<le> no_improv_epochs st1)"
    by (rule train_epoch_counter)
next
  fix status and st :: "('p, 'o) run_state"
  assume run: "train ext tdl vdl epochs patience w = Inr (status, st)"
  note s = train_run_scores [OF run]
  show "no_improv_epochs st = descents 0 (val_scores_seen status st)" by (rule s(1))
  show "descents 0 (take k (val_scores_seen status st)) < patience"
    if "0 < k \<and> k < length (val_scores_seen status st)" for k
    using s(2) [of k] that by simp
  show "val_scores_seen status st \<noteq> []" "patience \<le> descents 0 (val_scores_seen status st)"
    "int (length (val_scores_seen status st)) \<le> epochs" if "status = STOPPED"
    using s(3) [OF that] by simp_all
  show "int (length (val_scores_seen status st)) = max 0 epochs" if "status = COMPLETED"
    using s(4) [OF that] by simp
  show "descents 0 (val_scores_seen status st) < patience"
    if "status = COMPLETED" "val_scores_seen status st \<noteq> []"
    using s(4) [OF that(1)] that(2) by simp
  {
    assume ex: "epochs = 2 \<and> patience = 1 \<and> val_scores_seen status st = [1 / 2, 3 / 10]"
    show stopped: "status = STOPPED"
    proof (cases status)
      case STOPPED
      then show ?thesis .
    next
      case COMPLETED
      with s(4) ex have "descents 0 [1 / 2, 3 / 10] < (1::int)" by simp
      then show ?thesis by simp
    qed
    with ex show v: "val_fscores st = [1 / 2]" by (simp add: val_scores_seen_def)
    from train_run_records [OF run] v
    show "length (train_losses st) = 1" "length (train_fscores st) = 1" "length (val_losses st) = 1"
      by auto
  }
next
  fix status and st :: "('p, 'o) run_state"
  assume "train ext tdl vdl epochs patience w = Inr (status, st)"
  then show "\<exists>ms w'. logged_epochs ext tdl vdl (take (length ms) (py_range epochs))
            (emit Model_to_device w) = Inr (ms, w') \<and>
         train_losses st = map m_train_loss ms \<and> train_fscores st = map m_train_f1 ms \<and>
         val_losses st = map m_val_loss ms \<and> val_fscores st = map m_val_f1 ms \<and>
         (status = COMPLETED \<longrightarrow> wld st = w' \<and> int (length ms) = max 0 epochs) \<and>
         (status = STOPPED \<longrightarrow> int (length ms) < epochs \<and>
            (\<exists>m. epoch_metrics ext tdl vdl w' = Inr (m, wld st) \<and>
               prev_val_score st = m_val_f1 m \<and>
               val_scores_seen status st = map m_val_f1 ms @ [m_val_f1 m]))"
    by (rule train_run_metrics)
next
  fix k ms w' m and w'' :: "('p, 'o) world"
  assume a: "int k < epochs \<and>
        logged_epochs ext tdl vdl (take k (py_range epochs)) (emit Model_to_device w) =
          Inr (ms, w') \<and>
        epoch_metrics ext tdl vdl w' = Inr (m, w'') \<and>
        (\<forall>j. 0 < j \<and> j \<le> k \<longrightarrow> descents 0 (take j (map m_val_f1 ms)) < patience) \<and>
        patience \<le> descents 0 (map m_val_f1 ms @ [m_val_f1 m])"
  then have a1: "int k < epochs"
    and a2: "logged_epochs ext tdl vdl (take k (py_range epochs)) (emit Model_to_device w) =
          Inr (ms, w')"
    and a3: "epoch_metrics ext tdl vdl w' = Inr (m, w'')"
    and a4: "\<forall>j. 0 < j \<and> j \<le> k \<longrightarrow> descents 0 (take j (map m_val_f1 ms)) < patience"
    and a5: "patience \<le> descents 0 (map m_val_f1 ms @ [m_val_f1 m])"
    by blast+
  show "\<exists>st. train ext tdl vdl epochs patience w = Inr (STOPPED, st) \<and> wld st = w'' \<and>
         prev_val_score st = m_val_f1 m \<and>
         no_improv_epochs st = descents 0 (map m_val_f1 ms @ [m_val_f1 m]) \<and>
         train_losses st = map m_train_loss ms \<and> train_fscores st = map m_train_f1 ms \<and>
         val_losses st = map m_val_loss ms \<and> val_fscores st = map m_val_f1 ms"
    by (rule train_run_stops [OF a1 a2 a3 a4 a5])
next
  fix ms and w' :: "('p, 'o) world"
  assume a: "logged_epochs ext tdl vdl (py_range epochs) (emit Model_to_device w) =
          Inr (ms, w') \<and>
        (\<forall>j. 0 < j \<and> j \<le> length ms \<longrightarrow> descents 0 (take j (map m_val_f1 ms)) < patience)"
  show "\<exists>st. train ext tdl vdl epochs patience w = Inr (COMPLETED, st) \<and> wld st = w' \<and>
         no_improv_epochs st = descents 0 (map m_val_f1 ms) \<and>
         train_losses st = map m_train_loss ms \<and> train_fscores st = map m_train_f1 ms \<and>
         val_losses st = map m_val_loss ms \<and> val_fscores st = map m_val_f1 ms"
    by (rule train_run_completes [OF conjunct1 [OF a] conjunct2 [OF a]])
next
  fix m1 m2 and w1 w2 :: "('p, 'o) world"
  assume a: "epoch_metrics ext tdl vdl (emit Model_to_device w) = Inr (m1, w1) \<and>
        m_val_f1 m1 = 1 / 2 \<and>
        epoch_metrics ext tdl vdl (emit (epoch_log m1 0) w1) = Inr (m2, w2) \<and>
        m_val_f1 m2 = 3 / 10"
  then have a1: "epoch_metrics ext tdl vdl (emit Model_to_device w) = Inr (m1, w1)"
    and a2: "m_val_f1 m1 = 1 / 2"
    and a3: "epoch_metrics ext tdl vdl (emit (epoch_log m1 0) w1) = Inr (m2, w2)"
    and a4: "m_val_f1 m2 = 3 / 10"
    by blast+
  show "\<exists>st. train ext tdl vdl 2 1 w = Inr (STOPPED, st) \<and> wld st = w2 \<and>
         no_improv_epochs st = 1 \<and> prev_val_score st = 3 / 10 \<and>
         train_losses st = [m_train_loss m1] \<and> train_fscores st = [m_train_f1 m1] \<and>
         val_losses st = [m_val_loss m1] \<and> val_fscores st = [1 / 2]"
    by (rule train_two_epochs [OF a1 a2 a3 a4])
qed

theorem early_stop_counter_witness:
  "train toy_ext [batch_a] [batch_a] 2 1 toy_world = Inr (STOPPED, toy_final) \<and>
   val_scores_seen STOPPED toy_final = [1 / 2, 3 / 10] \<and>
   no_improv_epochs toy_final = descents 0 [1 / 2, 3 / 10] \<and>
   descents 0 [1 / 2, 3 / 10] = 1 \<and> descents 0 (take 1 [1 / 2, 3 / 10]) = 0 \<and>
   val_fscores toy_final = [1 / 2] \<and> train_losses toy_final = [29 / 5] \<and>
   train_fscores toy_final = [1 / 2] \<and> val_losses toy_final = [94 / 15] \<and>
   (\<exists>ms w' m. logged_epochs toy_ext [batch_a] [batch_a] (take (length ms) (py_range 2))
        (emit Model_to_device toy_world) = Inr (ms, w') \<and>
      map m_val_f1 ms = [1 / 2] \<and> map m_train_loss ms = [29 / 5] \<and>
      epoch_metrics toy_ext [batch_a] [batch_a] w' = Inr (m, wld toy_final) \<and>
      m_val_f1 m = 3 / 10)"
proof -
  note t = early_stop_counter [of toy_ext "[batch_a]" "[batch_a]" 1 2 toy_world]
  note t2 = t [THEN conjunct2, THEN conjunct1, rule_format, OF toy_train_run]
  note t3 = t [THEN conjunct2, THEN conjunct2, THEN conjunct1, rule_format, OF toy_train_run]
  have seen: "val_scores_seen STOPPED toy_final = [1 / 2, 3 / 10]"
    by (simp add: val_scores_seen_def toy_final_def)
  from t2 have "no_improv_epochs toy_final = descents 0 (val_scores_seen STOPPED toy_final)"
    by (rule conjunct1)
  then have c: "no_improv_epochs toy_final = descents 0 [1 / 2, 3 / 10]" unfolding seen .
  have d: "descents 0 [1 / 2, 3 / 10] = 1" "descents 0 (take 1 [1 / 2, 3 / 10]) = 0" by simp_all
  have l: "val_fscores toy_final = [1 / 2]" "train_losses toy_final = [29 / 5]"
    "train_fscores toy_final = [1 / 2]" "val_losses toy_final = [94 / 15]"
    "prev_val_score toy_final = 3 / 10"
    by (simp_all add: toy_final_def)
  from t3 obtain ms w' m where
    "logged_epochs toy_ext [batch_a] [batch_a] (take (length ms) (py_range 2))
        (emit Model_to_device toy_world) = Inr (ms, w')"
    "train_losses toy_final = map m_train_loss ms" "val_fscores toy_final = map m_val_f1 ms"
    "epoch_metrics toy_ext [batch_a] [batch_a] w' = Inr (m, wld toy_final)"
    "prev_val_score toy_final = m_val_f1 m"
    by blast
  then have e: "\<exists>ms w' m. logged_epochs toy_ext [batch_a] [batch_a] (take (length ms) (py_range 2))
        (emit Model_to_device toy_world) = Inr (ms, w') \<and>
      map m_val_f1 ms = [1 / 2] \<and> map m_train_loss ms = [29 / 5] \<and>
      epoch_metrics toy_ext [batch_a] [batch_a] w' = Inr (m, wld toy_final) \<and>
      m_val_f1 m = 3 / 10"
    unfolding l by (intro exI [of _ ms] exI [of _ w'] exI [of _ m]) simp
  from toy_train_run seen c d l(1-4) e show ?thesis by (intro conjI)
qed

subsection \<open>Non-negative scores\<close>













lemma train_epoch_order:
  assumes "train_epoch ext tdl vdl patience st epoch = Inr fl"
  shows "\<exists>tloss tf1 w1 vloss vf1 w2.
     train_step ext tdl (wld st) = Inr (tloss, tf1, w1) \<and>
     val_step ext vdl w1 = Inr (vloss, vf1, w2) \<and>
     (let c = no_improv_epochs st + (if vf1 < prev_val_score st then 1 else 0)
      in if patience \<le> c
         then fl = Return (st\<lparr>wld := w2, no_improv_epochs := c, prev_val_score := vf1\<rparr>)
         else fl = Next (st\<lparr>no_improv_epochs := c, prev_val_score := vf1,
           train_losses := train_losses st @ [tloss], train_fscores := train_fscores st @ [tf1],
           val_losses := val_losses st @ [vloss], val_fscores := val_fscores st @ [vf1],
           wld := emit (Wandb_log [(''train loss'', tloss), (''val loss'', vloss),
                   (''train F1'', tf1), (''val F1'', vf1), (''epoch'', real_of_int epoch)]) w2\<rparr>))"
  using assms
proof (cases rule: train_epoch_cases)
  case (stop tloss tf1 w1 vloss vf1 w2)
  show ?thesis
    apply (rule exI [of _ tloss], rule exI [of _ tf1], rule exI [of _ w1], rule exI [of _ vloss],
        rule exI [of _ vf1], rule exI [of _ w2])
    using stop by (simp add: Let_def)
next
  case (continue tloss tf1 w1 vloss vf1 w2)
  show ?thesis
    apply (rule exI [of _ tloss], rule exI [of _ tf1], rule exI [of _ w1], rule exI [of _ vloss],
        rule exI [of _ vf1], rule exI [of _ w2])
    using continue by (simp add: Let_def)
qed

lemma train_stopped_counter:
  assumes "train ext tdl vdl epochs patience w = Inr (STOPPED, st)"
  shows "patience \<le> no_improv_epochs st"
  using train_run_scores(1,3) [OF assms] by simp

text \<open>
  Claim C6, as the specification has it, fails: it has the metrics of every executed epoch
  appended and logged, the epoch that triggers the stop included. In the run below two epochs
  are begun and the second one stops the run, but one entry has been appended to each list,
  one epoch has been logged, and the last call of the run is the end of the validation step.
\<close>

theorem stopping_epoch_metrics_counterexample:
  "train toy_ext [batch_a] [batch_a] 2 1 toy_world = Inr (STOPPED, toy_final) \<and>
   epochs_begun (trace (wld toy_final)) = 2 \<and>
   length (train_losses toy_final) = 1 \<and> length (train_fscores toy_final) = 1 \<and>
   length (val_losses toy_final) = 1 \<and> length (val_fscores toy_final) = 1 \<and>
   length (epoch_logs (trace (wld toy_final))) = 1 \<and>
   last (trace (wld toy_final)) = Inference_exit"
  using toy_train_run by (simp add: toy_final_def)

text \<open>
  Claim C6, amended: every executed epoch runs the train step, then the validation step on
  the world the train step left, then updates the stopping state, and then checks it. When
  the counter has reached the patience the run returns at once (stopped): nothing is
  appended and nothing is logged for that epoch. Otherwise the four metrics are appended and
  the epoch is logged, and the run goes on to the next epoch, or ends (completed) when the
  epochs are used up. So a run has as many entries in each list as epoch logs; a completed
  run has begun that many epochs and ends with an epoch log, a stopped run has begun one more
  and ends with the validation step.
\<close>

theorem epoch_step_order:
  fixes ext :: "('p, 'o, 't) ext"
  shows
  "(\<forall>st epoch fl. train_epoch ext tdl vdl patience st epoch = Inr fl \<longrightarrow>
      (\<exists>tloss tf1 w1 vloss vf1 w2.
         train_step ext tdl (wld st) = Inr (tloss, tf1, w1) \<and>
         val_step ext vdl w1 = Inr (vloss, vf1, w2) \<and>
         (let c = no_improv_epochs st + (if vf1 < prev_val_score st then 1 else 0)
          in if patience \<le> c
             then fl = Return (st\<lparr>wld := w2, no_improv_epochs := c, prev_val_score := vf1\<rparr>)
             else fl = Next (st\<lparr>no_improv_epochs := c, prev_val_score := vf1,
               train_losses := train_losses st @ [tloss], train_fscores := train_fscores st @ [tf1],
               val_losses := val_losses st @ [vloss], val_fscores := val_fscores st @ [vf1],
               wld := emit (Wandb_log [(''train loss'', tloss), (''val loss'', vloss),
                   (''train F1'', tf1), (''val F1'', vf1), (''epoch'', real_of_int epoch)]) w2\<rparr>)))) \<and>
   (\<forall>status st. train ext tdl vdl epochs patience w = Inr (status, st) \<longrightarrow>
      (\<exists>n d. length (train_losses st) = n \<and> length (train_fscores st) = n \<and>
         length (val_losses st) = n \<and> length (val_fscores st) = n \<and>
         trace (wld st) = trace w @ Model_to_device # d \<and>
         length (epoch_logs d) = n \<and>
         epochs_begun d = n + (if status = STOPPED then 1 else 0) \<and>
         (status = COMPLETED \<longrightarrow> int n = max 0 epochs \<and>
            (0 < epochs \<longrightarrow> d \<noteq> [] \<and> is_epoch_log (last d))) \<and>
         (status = STOPPED \<longrightarrow> int n < epochs \<and> d \<noteq> [] \<and> last d = Inference_exit \<and>
            patience \<le> no_improv_epochs st)))"
proof (intro conjI allI impI)
  fix st :: "('p, 'o) run_state" and epoch fl
  assume "train_epoch ext tdl vdl patience st epoch = Inr fl"
  then show "\<exists>tloss tf1 w1 vloss vf1 w2.
         train_step ext tdl (wld st) = Inr (tloss, tf1, w1) \<and>
         val_step ext vdl w1 = Inr (vloss, vf1, w2) \<and>
         (let c = no_improv_epochs st + (if vf1 < prev_val_score st then 1 else 0)
          in if patience \<le> c
             then fl = Return (st\<lparr>wld := w2, no_improv_epochs := c, prev_val_score := vf1\<rparr>)
             else fl = Next (st\<lparr>no_improv_epochs := c, prev_val_score := vf1,
               train_losses := train_losses st @ [tloss], train_fscores := train_fscores st @ [tf1],
               val_losses := val_losses st @ [vloss], val_fscores := val_fscores st @ [vf1],
               wld := emit (Wandb_log [(''train loss'', tloss), (''val loss'', vloss),
                   (''train F1'', tf1), (''val F1'', vf1), (''epoch'', real_of_int epoch)]) w2\<rparr>))"
    by (rule train_epoch_order)
next
  fix status and st :: "('p, 'o) run_state"
  assume run: "train ext tdl vdl epochs patience w = Inr (status, st)"
  from train_run_records [OF run] obtain n d where nd:
    "length (train_losses st) = n" "length (train_fscores st) = n"
    "length (val_losses st) = n" "length (val_fscores st) = n"
    "trace (wld st) = trace w @ Model_to_device # d"
    "length (epoch_logs d) = n"
    "epochs_begun d = n + (if status = STOPPED then 1 else 0)"
    "status = COMPLETED \<longrightarrow> int n = max 0 epochs \<and> (0 < epochs \<longrightarrow> d \<noteq> [] \<and> is_epoch_log (last d))"
    "status = STOPPED \<longrightarrow> int n < epochs \<and> d \<noteq> [] \<and> last d = Inference_exit"
    by blast
  have "status = STOPPED \<longrightarrow> patience \<le> no_improv_epochs st"
    using run train_stopped_counter by blast
  with nd show "\<exists>n d. length (train_losses st) = n \<and> length (train_fscores st) = n \<and>
         length (val_losses st) = n \<and> length (val_fscores st) = n \<and>
         trace (wld st) = trace w @ Model_to_device # d \<and>
         length (epoch_logs d) = n \<and>
         epochs_begun d = n + (if status = STOPPED then 1 else 0) \<and>
         (status = COMPLETED \<longrightarrow> int n = max 0 epochs \<and>
            (0 < epochs \<longrightarrow> d \<noteq> [] \<and> is_epoch_log (last d))) \<and>
         (status = STOPPED \<longrightarrow> int n < epochs \<and> d \<noteq> [] \<and> last d = Inference_exit \<and>
            patience \<le> no_improv_epochs st)"
    by (intro exI [of _ n] exI [of _ d]) simp
qed

theorem epoch_step_order_witness:
  "train toy_ext [batch_a] [batch_a] 2 1 toy_world = Inr (STOPPED, toy_final) \<and>
   trace (wld toy_final) = trace toy_world @ Model_to_device # tl (trace (wld toy_final)) \<and>
   length (epoch_logs (tl (trace (wld toy_final)))) = length (val_fscores toy_final) \<and>
   epochs_begun (tl (trace (wld toy_final))) = length (val_fscores toy_final) + 1 \<and>
   last (tl (trace (wld toy_final))) = Inference_exit \<and>
   (1::int) \<le> no_improv_epochs toy_final"
proof -
  from epoch_step_order [of toy_ext "[batch_a]" "[batch_a]" 1 2 toy_world,
      THEN conjunct2, rule_format, OF toy_train_run]
  obtain n d where nd: "length (val_fscores toy_final) = n"
    "trace (wld toy_final) = trace toy_world @ Model_to_device # d"
    "length (epoch_logs d) = n"
    "epochs_begun d = n + (if STOPPED = STOPPED then 1 else 0)"
    "STOPPED = STOPPED \<longrightarrow> int n < 2 \<and> d \<noteq> [] \<and> last d = Inference_exit \<and>
            1 \<le> no_improv_epochs toy_final"
    by blast
  from nd(2) have d: "d = tl (trace (wld toy_final))" by (simp add: toy_world_def)
  from nd show ?thesis unfolding d using toy_train_run by simp
qed

end
